theory Spec2Isabelle
  imports Complex_Main "HOL-Library.Word" "HOL-Library.Sublist"
begin

text \<open>
  A model of the OpenAI service of EchoNote AI (\<open>src/unnamed/part_000\<close>): the request
  helper \<open>openaiRequest\<close>, \<open>sendMessageToChat\<close>, \<open>generateSpeechFromText\<close> with its
  splitting of long texts, and \<open>float32ArrayToWav\<close>.  Line numbers are those of that
  file.  A function that can throw returns a sum, with the thrown error on the left; a
  function that talks to the network also returns the requests it has issued.
\<close>

section \<open>JavaScript strings\<close>

text \<open>
  A JavaScript string is a sequence of UTF-16 code units; \<open>length\<close>, \<open>substring\<close>,
  \<open>lastIndexOf\<close> and \<open>trim\<close> all count and compare code units.  String literals of the
  source are ASCII and are written with \<open>lit\<close>.
\<close>

type_synonym codeUnit = "16 word"
type_synonym jsString = "codeUnit list"
type_synonym byte = "8 word"

definition lit :: "string \<Rightarrow> jsString" where
  "lit s = map of_char s"

text \<open>
  \<open>String.prototype.trim\<close> removes the code units that are WhiteSpace or LineTerminator
  in ECMAScript: TAB, LF, VT, FF, CR, SP, NBSP, U+1680, U+2000..U+200A, U+2028, U+2029,
  U+202F, U+205F, U+3000 and U+FEFF.
\<close>

definition isWhiteSpace :: "codeUnit \<Rightarrow> bool" where
  "isWhiteSpace c =
     (c = 0x0009 \<or> c = 0x000A \<or> c = 0x000B \<or> c = 0x000C \<or> c = 0x000D \<or> c = 0x0020 \<or>
      c = 0x00A0 \<or> c = 0x1680 \<or> (0x2000 \<le> c \<and> c \<le> 0x200A) \<or> c = 0x2028 \<or>
      c = 0x2029 \<or> c = 0x202F \<or> c = 0x205F \<or> c = 0x3000 \<or> c = 0xFEFF)"

definition trim :: "jsString \<Rightarrow> jsString" where
  "trim s = rev (dropWhile isWhiteSpace (rev (dropWhile isWhiteSpace s)))"

text \<open>
  \<open>s.substring(start, end)\<close>: both arguments are clamped to \<open>[0, length]\<close> and swapped
  when \<open>start > end\<close>.  \<open>s.substring(start)\<close> takes \<open>end = length\<close>.
\<close>

definition substring :: "jsString \<Rightarrow> int \<Rightarrow> int \<Rightarrow> jsString" where
  "substring s start end' =
     (let len = int (length s);
          finalStart = min (max start 0) len;
          finalEnd = min (max end' 0) len;
          from = min finalStart finalEnd;
          to = max finalStart finalEnd
      in take (nat (to - from)) (drop (nat from) s))"

definition substringFrom :: "jsString \<Rightarrow> int \<Rightarrow> jsString" where
  "substringFrom s start = substring s start (int (length s))"

text \<open>
  \<open>s.lastIndexOf(pat, position)\<close>: the largest index \<open>k\<close> with
  \<open>k \<le> min position (length s - length pat)\<close> at which \<open>pat\<close> occurs in \<open>s\<close>, or \<open>-1\<close>.
\<close>

definition matchesAt :: "jsString \<Rightarrow> jsString \<Rightarrow> nat \<Rightarrow> bool" where
  "matchesAt s pat k = (k + length pat \<le> length s \<and> take (length pat) (drop k s) = pat)"

primrec searchDown :: "jsString \<Rightarrow> jsString \<Rightarrow> nat \<Rightarrow> int" where
  "searchDown s pat 0 = (if matchesAt s pat 0 then 0 else - 1)"
| "searchDown s pat (Suc k) =
     (if matchesAt s pat (Suc k) then int (Suc k) else searchDown s pat k)"

definition lastIndexOf :: "jsString \<Rightarrow> jsString \<Rightarrow> nat \<Rightarrow> int" where
  "lastIndexOf s pat position =
     (if length s < length pat then - 1
      else searchDown s pat (min position (length s - length pat)))"

section \<open>Splitting text for speech synthesis\<close>

text \<open>
  The splitting loop of \<open>generateSpeechFromText\<close> (lines 190 to 216), with the chunks
  collected so far.  \<open>MAX_CHARS\<close> is
  the constant of line 171.  \<open>MAX_CHARS * 0.1\<close> is a double product; for 4000 it is
  exactly 400.
\<close>

definition MAX_CHARS :: nat where
  "MAX_CHARS = 4000"

definition newline :: jsString where
  "newline = [0x000A]"

text \<open>Lines 200 to 205: the cascade of backward searches, each tried only when the
  previous ones returned \<open>-1\<close>.\<close>

definition findSplit :: "jsString \<Rightarrow> int" where
  "findSplit remainingText =
     (let splitIndex = lastIndexOf remainingText (lit ''. '') MAX_CHARS;
          splitIndex = (if splitIndex = - 1
                        then lastIndexOf remainingText (lit ''? '') MAX_CHARS else splitIndex);
          splitIndex = (if splitIndex = - 1
                        then lastIndexOf remainingText (lit ''! '') MAX_CHARS else splitIndex);
          splitIndex = (if splitIndex = - 1
                        then lastIndexOf remainingText newline MAX_CHARS else splitIndex);
          splitIndex = (if splitIndex = - 1
                        then lastIndexOf remainingText (lit '', '') MAX_CHARS else splitIndex);
          splitIndex = (if splitIndex = - 1
                        then lastIndexOf remainingText (lit '' '') MAX_CHARS else splitIndex)
      in splitIndex)"

text \<open>Lines 207 to 212: hard chop at \<open>MAX_CHARS\<close>, or one past the separator found.\<close>

definition chooseSplit :: "jsString \<Rightarrow> int" where
  "chooseSplit remainingText =
     (let splitIndex = findSplit remainingText
      in if splitIndex = - 1 \<or> real_of_int splitIndex < real MAX_CHARS * 0.1
         then int MAX_CHARS
         else splitIndex + 1)"

function splitLoop :: "jsString \<Rightarrow> jsString list \<Rightarrow> jsString list" where
  "splitLoop remainingText chunks =
     (if length remainingText > 0 then
        (if length remainingText \<le> MAX_CHARS then chunks @ [remainingText]
         else
           (let splitIndex = chooseSplit remainingText
            in splitLoop (trim (substringFrom remainingText splitIndex))
                 (chunks @ [substring remainingText 0 splitIndex])))
      else chunks)"
  by pat_completeness auto
termination
proof (relation "measure (\<lambda>(remainingText, chunks). length remainingText)")
  show "wf (measure (\<lambda>(remainingText :: jsString, chunks :: jsString list). length remainingText))"
    by simp
next
  fix remainingText :: jsString and chunks :: "jsString list" and splitIndex :: int
  assume long: "\<not> length remainingText \<le> MAX_CHARS"
    and splitIndex: "splitIndex = chooseSplit remainingText"
  have pos: "1 \<le> splitIndex"
    by (simp add: splitIndex chooseSplit_def Let_def MAX_CHARS_def)
  have "length (trim (substringFrom remainingText splitIndex))
          \<le> length (substringFrom remainingText splitIndex)"
    unfolding trim_def
    by (metis length_dropWhile_le length_rev order_trans)
  also have "\<dots> < length remainingText"
    using pos long
    by (cases remainingText)
       (simp_all add: substringFrom_def substring_def Let_def MAX_CHARS_def min_def max_def)
  finally show "((trim (substringFrom remainingText splitIndex),
                  chunks @ [substring remainingText 0 splitIndex]),
                 (remainingText, chunks))
                \<in> measure (\<lambda>(remainingText, chunks). length remainingText)"
    by simp
qed

definition splitText :: "jsString \<Rightarrow> jsString list" where
  "splitText text = splitLoop text []"

subsection \<open>Vocabulary of the claims about splitting\<close>

text \<open>The separators of lines 200 to 205, in the order in which they are tried.\<close>

definition boundaryTokens :: "jsString list" where
  "boundaryTokens = [lit ''. '', lit ''? '', lit ''! '', newline, lit '', '', lit '' '']"

text \<open>The cascade of lines 200 to 205 over a list of separators: the result of the first
  search that does not return \<open>-1\<close>.\<close>

fun firstFound :: "jsString \<Rightarrow> jsString list \<Rightarrow> int" where
  "firstFound r [] = - 1"
| "firstFound r (tok # toks) =
     (if lastIndexOf r tok MAX_CHARS = - 1 then firstFound r toks
      else lastIndexOf r tok MAX_CHARS)"

text \<open>Some separator occurs at an offset between 10 percent of the ceiling and the ceiling.\<close>

definition boundaryInWindow :: "jsString \<Rightarrow> bool" where
  "boundaryInWindow r =
     list_ex (\<lambda>tok. list_ex (\<lambda>k. matchesAt r tok k) [400 ..< Suc MAX_CHARS]) boundaryTokens"

text \<open>The chosen split index is one past the first code unit of a separator occurrence:
  the emitted chunk ends with the separator character.\<close>

definition splitsAtBoundary :: "jsString \<Rightarrow> bool" where
  "splitsAtBoundary r =
     list_ex (\<lambda>tok. 1 \<le> chooseSplit r \<and> matchesAt r tok (nat (chooseSplit r - 1))) boundaryTokens"

text \<open>Chunks and the gaps that follow them, put back together: the first
  chunk, the first gap, the second chunk, the second gap, and so on.\<close>

definition interleave :: "jsString list \<Rightarrow> jsString list \<Rightarrow> jsString" where
  "interleave chunks gaps = concat (map (\<lambda>(chunk, gap). chunk @ gap) (zip chunks gaps))"

text \<open>Sample texts: 4000 letters, then a period, a space and one more letter; a period
  and a space at the very start, then a word of 500 letters, a space and a word of 5000
  letters; 3000 letters, then a question mark, a space and 2000 letters.\<close>

definition textSentenceAtCeiling :: jsString where
  "textSentenceAtCeiling = replicate 4000 0x61 @ lit ''. '' @ lit ''b''"

definition textEarlySentence :: jsString where
  "textEarlySentence = lit ''. '' @ replicate 500 0x61 @ lit '' '' @ replicate 5000 0x61"

definition textMidSentence :: jsString where
  "textMidSentence = replicate 3000 0x61 @ lit ''? '' @ replicate 2000 0x62"

section \<open>The request helper\<close>

text \<open>
  A thrown JavaScript error, as far as the code looks at it: its \<open>name\<close> and its
  \<open>message\<close>.  \<open>new Error(m)\<close> has the name \<open>Error\<close>.
\<close>

record jsError =
  errName :: jsString
  errMessage :: jsString

definition newError :: "jsString \<Rightarrow> jsError" where
  "newError m = \<lparr>errName = lit ''Error'', errMessage = m\<rparr>"

text \<open>
  What the code reads from a response.  \<open>errorData\<close> is the outcome of lines 52 and 53 on
  a failure response: \<open>response.json().catch(() => ({}))\<close> followed by
  \<open>errorData.error?.message\<close>.  A body that is the JSON value \<open>null\<close> makes the property
  access throw (the engine's TypeError is carried along); otherwise the message is there
  or not (a body that does not parse gives \<open>{}\<close>, so no message).  \<open>chatContent\<close> is the
  outcome of \<open>response.json()\<close> followed by \<open>data.choices?.[0]?.message?.content\<close>, and
  \<open>arrayBuffer\<close> the outcome of \<open>response.arrayBuffer()\<close>; both can throw.
\<close>

datatype errorData = NullBody jsError | ErrorMessage "jsString option"

record httpResponse =
  ok :: bool
  status :: nat
  errorData :: errorData
  chatContent :: "jsError + jsString option"
  arrayBuffer :: "jsError + byte list"

text \<open>
  What the network does with one \<open>fetch\<close>: it resolves with a response or rejects with an
  error, so many milliseconds after the call, or it never settles.
\<close>

datatype fetchOutcome = Resolves nat httpResponse | Rejects nat jsError | NeverSettles

datatype chatRole = System | User | Assistant

record chatMessage =
  role :: chatRole
  content :: jsString

text \<open>The JSON bodies that are sent: \<open>model\<close>, \<open>input\<close>, \<open>voice\<close> and \<open>response_format\<close>
  for speech; \<open>model\<close>, \<open>messages\<close>, \<open>max_tokens\<close> and \<open>temperature\<close> for chat.\<close>

datatype requestBody =
  SpeechBody jsString jsString jsString jsString
| ChatBody jsString "chatMessage list" nat rat

record request =
  url :: jsString
  headers :: "(jsString \<times> jsString) list"
  body :: requestBody

text \<open>
  The surroundings of the service: the API key of line 4 and the network, which answers
  the \<open>k\<close>-th request of an operation (counted from 0) with a \<open>fetchOutcome\<close>.
\<close>

record world =
  OPENAI_API_KEY :: jsString
  network :: "nat \<Rightarrow> request \<Rightarrow> fetchOutcome"

definition OPENAI_BASE_URL :: jsString where
  "OPENAI_BASE_URL = lit ''https://api.openai.com/v1''"

text \<open>
  Lines 38 to 47: the timer of \<open>setTimeout(() => controller.abort(), timeoutMs)\<close> against
  the fetch.  If the timer fires first, the fetch rejects with the signal's \<open>AbortError\<close>.
  The timer is registered (line 39) before the fetch is started (line 42), so when both
  are due in the same millisecond the timer comes first: the fetch wins only when it
  settles strictly before \<open>timeoutMs\<close>.  \<open>timeoutMs\<close> is the delay as \<open>setTimeout\<close> keeps
  it, a value below \<open>2 ^ 31\<close>; what an engine makes of a larger delay is not modelled.
\<close>

definition abortError :: jsError where
  "abortError = \<lparr>errName = lit ''AbortError'', errMessage = lit ''signal is aborted without reason''\<rparr>"

definition timerFiresFirst :: "nat \<Rightarrow> fetchOutcome \<Rightarrow> bool" where
  "timerFiresFirst timeoutMs outcome =
     (case outcome of
        Resolves t response \<Rightarrow> timeoutMs \<le> t
      | Rejects t error \<Rightarrow> timeoutMs \<le> t
      | NeverSettles \<Rightarrow> True)"

definition fetch :: "fetchOutcome \<Rightarrow> nat \<Rightarrow> jsError + httpResponse" where
  "fetch outcome timeoutMs =
     (if timerFiresFirst timeoutMs outcome then Inl abortError
      else case outcome of
             Resolves t response \<Rightarrow> Inr response
           | Rejects t error \<Rightarrow> Inl error
           | NeverSettles \<Rightarrow> Inl abortError)"

text \<open>The decimal digits of a number, for the template string of line 53.\<close>

fun decimal :: "nat \<Rightarrow> jsString" where
  "decimal n = (if n < 10 then [0x30 + of_nat n] else decimal (n div 10) @ [0x30 + of_nat (n mod 10)])"

definition timeoutError :: jsError where
  "timeoutError = newError (lit ''Request timed out. Check your connection.'')"

text \<open>Lines 42 to 56, the \<open>try\<close> block: the value returned or the error thrown in it.\<close>

definition openaiRequestTry :: "fetchOutcome \<Rightarrow> nat \<Rightarrow> jsError + httpResponse" where
  "openaiRequestTry outcome timeoutMs =
     (case fetch outcome timeoutMs of
        Inl error \<Rightarrow> Inl error
      | Inr response \<Rightarrow>
          if \<not> ok response then
            (case errorData response of
               NullBody typeError \<Rightarrow> Inl typeError
             | ErrorMessage message \<Rightarrow>
                 Inl (newError
                   (case message of
                      Some m \<Rightarrow> if m \<noteq> [] then m
                                else lit ''OpenAI API error: '' @ decimal (status response)
                    | None \<Rightarrow> lit ''OpenAI API error: '' @ decimal (status response))))
          else Inr response)"

text \<open>Lines 57 to 63, the \<open>catch\<close> block.\<close>

definition openaiRequestCatch :: "jsError \<Rightarrow> jsError" where
  "openaiRequestCatch error =
     (if errName error = lit ''AbortError'' then timeoutError else error)"

definition openaiRequestOutcome :: "fetchOutcome \<Rightarrow> nat \<Rightarrow> jsError + httpResponse" where
  "openaiRequestOutcome outcome timeoutMs =
     (case openaiRequestTry outcome timeoutMs of
        Inl error \<Rightarrow> Inl (openaiRequestCatch error)
      | Inr response \<Rightarrow> Inr response)"

text \<open>
  \<open>openaiRequest\<close> with the requests issued so far: it builds the request (lines 29 to
  47), appends it to the list and returns the outcome.
\<close>

definition requestHeaders :: "jsString \<Rightarrow> bool \<Rightarrow> (jsString \<times> jsString) list" where
  "requestHeaders apiKey isFormData =
     (lit ''Authorization'', lit ''Bearer '' @ apiKey) #
     (if \<not> isFormData then [(lit ''Content-Type'', lit ''application/json'')] else [])"

definition buildRequest :: "world \<Rightarrow> jsString \<Rightarrow> requestBody \<Rightarrow> bool \<Rightarrow> request" where
  "buildRequest w endpoint payload isFormData =
     \<lparr>url = OPENAI_BASE_URL @ endpoint,
      headers = requestHeaders (OPENAI_API_KEY w) isFormData,
      body = payload\<rparr>"

definition openaiRequest ::
  "world \<Rightarrow> request list \<Rightarrow> jsString \<Rightarrow> requestBody \<Rightarrow> bool \<Rightarrow> nat
     \<Rightarrow> (jsError + httpResponse) \<times> request list" where
  "openaiRequest w calls endpoint payload isFormData timeoutMs =
     (let req = buildRequest w endpoint payload isFormData
      in (openaiRequestOutcome (network w (length calls) req) timeoutMs, calls @ [req]))"

text \<open>The default arguments of line 28: \<open>isFormData = false\<close>, \<open>timeoutMs = 30000\<close>.\<close>

definition openaiRequestDefault ::
  "world \<Rightarrow> request list \<Rightarrow> jsString \<Rightarrow> requestBody \<Rightarrow> (jsError + httpResponse) \<times> request list" where
  "openaiRequestDefault w calls endpoint payload = openaiRequest w calls endpoint payload False 30000"

section \<open>Chat\<close>

record chatSession =
  messages :: "chatMessage list"
  systemPrompt :: jsString

text \<open>
  \<open>sendMessageToChat\<close> (lines 138 to 164) returns the reply, the session as the call leaves
  it, and the requests issued.  \<open>||\<close> replaces a missing or empty content.
\<close>

definition chatRequestBody :: "chatSession \<Rightarrow> requestBody" where
  "chatRequestBody chat =
     ChatBody (lit ''gpt-4o-mini'')
       (\<lparr>role = System, content = systemPrompt chat\<rparr> # messages chat) 1000 (7 / 10)"

definition sendMessageToChat ::
  "world \<Rightarrow> chatSession \<Rightarrow> jsString \<Rightarrow> jsString \<times> chatSession \<times> request list" where
  "sendMessageToChat w chat message =
     (let chat1 = chat\<lparr>messages := messages chat @ [\<lparr>role = User, content = message\<rparr>]\<rparr>;
          (result, calls) = openaiRequestDefault w [] (lit ''/chat/completions'') (chatRequestBody chat1)
      in case (case result of Inl error \<Rightarrow> Inl error | Inr response \<Rightarrow> chatContent response) of
           Inl error \<Rightarrow>
             (lit ''An error occurred while communicating with the assistant.'', chat1, calls)
         | Inr data \<Rightarrow>
             (let assistantMessage =
                    (case data of
                       Some c \<Rightarrow> if c \<noteq> [] then c else lit ''I'm sorry, I couldn't process that.''
                     | None \<Rightarrow> lit ''I'm sorry, I couldn't process that.'')
              in (assistantMessage,
                  chat1\<lparr>messages := messages chat1 @ [\<lparr>role = Assistant, content = assistantMessage\<rparr>]\<rparr>,
                  calls)))"

section \<open>Speech synthesis\<close>

record blob =
  blobBytes :: "byte list"
  blobType :: jsString

definition rangeError :: jsError where
  "rangeError = \<lparr>errName = lit ''RangeError'', errMessage = lit ''offset is out of bounds''\<rparr>"

text \<open>Writing \<open>bs\<close> into a byte array at \<open>offset\<close>: what \<open>TypedArray.prototype.set\<close> and the
  \<open>DataView\<close> setters do; out of range they throw a \<open>RangeError\<close>.\<close>

definition setBytes :: "byte list \<Rightarrow> nat \<Rightarrow> byte list \<Rightarrow> jsError + byte list" where
  "setBytes view offset bs =
     (if offset + length bs \<le> length view
      then Inr (take offset view @ bs @ drop (offset + length bs) view)
      else Inl rangeError)"

definition andThen :: "jsError + 'a \<Rightarrow> ('a \<Rightarrow> jsError + 'b) \<Rightarrow> jsError + 'b" where
  "andThen r f = (case r of Inl error \<Rightarrow> Inl error | Inr v \<Rightarrow> f v)"

text \<open>Lines 175 to 185.\<close>

definition speechRequestBody :: "jsString \<Rightarrow> jsString \<Rightarrow> requestBody" where
  "speechRequestBody voice chunk =
     SpeechBody (lit ''tts-1'') chunk (if voice \<noteq> [] then voice else lit ''alloy'') (lit ''mp3'')"

definition fetchAudioChunk ::
  "world \<Rightarrow> jsString \<Rightarrow> request list \<Rightarrow> jsString \<Rightarrow> (jsError + byte list) \<times> request list" where
  "fetchAudioChunk w voice calls chunk =
     (let (result, calls') = openaiRequestDefault w calls (lit ''/audio/speech'') (speechRequestBody voice chunk)
      in (case result of Inl error \<Rightarrow> Inl error | Inr response \<Rightarrow> arrayBuffer response, calls'))"

text \<open>Lines 221 to 225: the chunks are sent one after the other; the first error ends
  the loop.\<close>

fun processChunks ::
  "world \<Rightarrow> jsString \<Rightarrow> jsString list \<Rightarrow> byte list list \<Rightarrow> request list
     \<Rightarrow> (jsError + byte list list) \<times> request list" where
  "processChunks w voice [] audioParts calls = (Inr audioParts, calls)"
| "processChunks w voice (chunk # chunks) audioParts calls =
     (if length (trim chunk) > 0 then
        (case fetchAudioChunk w voice calls chunk of
           (Inl error, calls') \<Rightarrow> (Inl error, calls')
         | (Inr part, calls') \<Rightarrow> processChunks w voice chunks (audioParts @ [part]) calls')
      else processChunks w voice chunks audioParts calls)"

text \<open>Lines 228 to 235: the parts are copied into one array of the total length.\<close>

fun copyParts :: "byte list list \<Rightarrow> byte list \<Rightarrow> nat \<Rightarrow> jsError + byte list" where
  "copyParts [] combinedBytes offset = Inr combinedBytes"
| "copyParts (part # parts) combinedBytes offset =
     andThen (setBytes combinedBytes offset part)
       (\<lambda>combinedBytes. copyParts parts combinedBytes (offset + length part))"

definition concatenateParts :: "byte list list \<Rightarrow> jsError + byte list" where
  "concatenateParts audioParts =
     (let totalLength = foldl (\<lambda>acc part. acc + length part) 0 audioParts
      in copyParts audioParts (replicate totalLength 0) 0)"

text \<open>
  \<open>generateSpeechFromText\<close> (lines 168 to 244) returns the blob or the error thrown, and
  the requests issued.  The \<open>catch\<close> block throws the error again.
\<close>

definition generateSpeechFromText ::
  "world \<Rightarrow> jsString \<Rightarrow> jsString \<Rightarrow> (jsError + blob) \<times> request list" where
  "generateSpeechFromText w text voice =
     (if text = [] then (Inr \<lparr>blobBytes = [], blobType = lit ''audio/mp3''\<rparr>, [])
      else
        (case processChunks w voice (splitText text) [] [] of
           (Inl error, calls) \<Rightarrow> (Inl error, calls)
         | (Inr audioParts, calls) \<Rightarrow>
             (case concatenateParts audioParts of
                Inl error \<Rightarrow> (Inl error, calls)
              | Inr combinedBytes \<Rightarrow>
                  (Inr \<lparr>blobBytes = combinedBytes, blobType = lit ''audio/mpeg''\<rparr>, calls))))"


subsection \<open>Vocabulary of the claims about the services\<close>

text \<open>The request that \<open>fetchAudioChunk\<close> issues for a chunk, and what the call gives when
  it is the \<open>k\<close>-th request of the operation.\<close>

definition speechRequest :: "world \<Rightarrow> jsString \<Rightarrow> jsString \<Rightarrow> request" where
  "speechRequest w voice chunk =
     buildRequest w (lit ''/audio/speech'') (speechRequestBody voice chunk) False"

definition chunkResult :: "world \<Rightarrow> jsString \<Rightarrow> nat \<Rightarrow> jsString \<Rightarrow> jsError + byte list" where
  "chunkResult w voice k chunk =
     andThen (openaiRequestOutcome (network w k (speechRequest w voice chunk)) 30000) arrayBuffer"

text \<open>The chunks that are sent: line 222 skips a chunk that is empty after trimming.\<close>

definition dispatched :: "jsString \<Rightarrow> jsString list" where
  "dispatched text = filter (\<lambda>chunk. length (trim chunk) > 0) (splitText text)"

text \<open>The request that \<open>sendMessageToChat\<close> issues, and what the call and the decoding of
  its body give.\<close>

definition chatRequest :: "world \<Rightarrow> chatSession \<Rightarrow> jsString \<Rightarrow> request" where
  "chatRequest w chat message =
     buildRequest w (lit ''/chat/completions'')
       (ChatBody (lit ''gpt-4o-mini'')
          (\<lparr>role = System, content = systemPrompt chat\<rparr>
             # messages chat @ [\<lparr>role = User, content = message\<rparr>]) 1000 (7 / 10)) False"

definition chatResult :: "world \<Rightarrow> chatSession \<Rightarrow> jsString \<Rightarrow> jsError + jsString option" where
  "chatResult w chat message =
     andThen (openaiRequestOutcome (network w 0 (chatRequest w chat message)) 30000) chatContent"

definition replyOf :: "jsString option \<Rightarrow> jsString" where
  "replyOf data =
     (case data of
        Some c \<Rightarrow> if c \<noteq> [] then c else lit ''I'm sorry, I couldn't process that.''
      | None \<Rightarrow> lit ''I'm sorry, I couldn't process that.'')"

text \<open>A failure of the request helper that is not a timeout: the fetch settled strictly
  before the timer was due and either rejected or resolved with a failure status.\<close>

definition settlesWithFailure :: "nat \<Rightarrow> fetchOutcome \<Rightarrow> bool" where
  "settlesWithFailure timeoutMs outcome =
     (\<not> timerFiresFirst timeoutMs outcome \<and>
      (case outcome of
         Resolves t response \<Rightarrow> \<not> ok response
       | Rejects t error \<Rightarrow> True
       | NeverSettles \<Rightarrow> False))"

text \<open>Sample responses and networks.\<close>

definition audioResponse :: "byte list \<Rightarrow> httpResponse" where
  "audioResponse bs =
     \<lparr>ok = True, status = 200, errorData = ErrorMessage None,
      chatContent = Inl (newError (lit ''Unexpected token'')), arrayBuffer = Inr bs\<rparr>"

definition chatResponse :: "jsString \<Rightarrow> httpResponse" where
  "chatResponse reply =
     \<lparr>ok = True, status = 200, errorData = ErrorMessage None,
      chatContent = Inr (Some reply), arrayBuffer = Inr []\<rparr>"

definition failureResponse :: "nat \<Rightarrow> jsString option \<Rightarrow> httpResponse" where
  "failureResponse code message =
     \<lparr>ok = False, status = code, errorData = ErrorMessage message,
      chatContent = Inr None, arrayBuffer = Inr []\<rparr>"

definition quickWorld :: "httpResponse \<Rightarrow> world" where
  "quickWorld response =
     \<lparr>OPENAI_API_KEY = lit ''sk-test'', network = (\<lambda>k req. Resolves 120 response)\<rparr>"

definition silentWorld :: world where
  "silentWorld = \<lparr>OPENAI_API_KEY = lit ''sk-test'', network = (\<lambda>k req. NeverSettles)\<rparr>"

text \<open>A network that answers the first request with audio and fails the second with
  status 500.\<close>

definition secondFailsWorld :: world where
  "secondFailsWorld =
     \<lparr>OPENAI_API_KEY = lit ''sk-test'',
      network = (\<lambda>k req. if k = 0 then Resolves 120 (audioResponse [1, 2, 3])
                          else Resolves 80 (failureResponse 500 None))\<rparr>"

text \<open>A failure that settles in time and carries the text of the timeout failure itself:
  a rejection named \<open>AbortError\<close> or equal to the timeout error, or a failure response
  whose own message is the timeout message.\<close>

definition carriesTimeoutText :: "fetchOutcome \<Rightarrow> bool" where
  "carriesTimeoutText outcome =
     (case outcome of
        Rejects t error \<Rightarrow> errName error = lit ''AbortError'' \<or> error = timeoutError
      | Resolves t response \<Rightarrow>
          (case errorData response of
             NullBody typeError \<Rightarrow> errName typeError = lit ''AbortError'' \<or> typeError = timeoutError
           | ErrorMessage message \<Rightarrow> message = Some (errMessage timeoutError))
      | NeverSettles \<Rightarrow> False)"

definition sampleChat :: chatSession where
  "sampleChat =
     \<lparr>messages = [\<lparr>role = User, content = lit ''Hi''\<rparr>, \<lparr>role = Assistant, content = lit ''Hello''\<rparr>],
      systemPrompt = lit ''You are a helpful assistant.''\<rparr>"

text \<open>The number that a string of decimal digits denotes.\<close>

definition digitsValue :: "jsString \<Rightarrow> nat" where
  "digitsValue s = foldl (\<lambda>acc d. 10 * acc + (unat d - 48)) 0 s"

text \<open>A network whose answer is due in the very millisecond of the default timeout, and a
  network that is down.\<close>

definition tieWorld :: "httpResponse \<Rightarrow> world" where
  "tieWorld response =
     \<lparr>OPENAI_API_KEY = lit ''sk-test'', network = (\<lambda>k req. Resolves 30000 response)\<rparr>"

definition failedToFetch :: jsError where
  "failedToFetch = \<lparr>errName = lit ''TypeError'', errMessage = lit ''Failed to fetch''\<rparr>"

definition offlineWorld :: world where
  "offlineWorld = \<lparr>OPENAI_API_KEY = lit ''sk-test'', network = (\<lambda>k req. Rejects 15 failedToFetch)\<rparr>"


section \<open>The WAV container\<close>

text \<open>
  A JavaScript number: a finite value, an infinity or NaN.  The samples are the elements
  of a \<open>Float32Array\<close>, read as doubles; finite values are modelled by rationals.  The
  arithmetic of \<open>float32ArrayToWav\<close> on them is exact in doubles (a clamped sample has 24
  significant bits, the factors \<open>0x8000\<close> and \<open>0x7FFF\<close> at most 15), so no rounding is
  lost by that.  The sign of a zero is not modelled: it does not reach the integer
  that is written.
\<close>

datatype number = Num rat | PosInfinity | NegInfinity | NaN

fun mathMin :: "number \<Rightarrow> number \<Rightarrow> number" where
  "mathMin NaN y = NaN"
| "mathMin x NaN = NaN"
| "mathMin NegInfinity y = NegInfinity"
| "mathMin x NegInfinity = NegInfinity"
| "mathMin PosInfinity y = y"
| "mathMin x PosInfinity = x"
| "mathMin (Num a) (Num b) = Num (min a b)"

fun mathMax :: "number \<Rightarrow> number \<Rightarrow> number" where
  "mathMax NaN y = NaN"
| "mathMax x NaN = NaN"
| "mathMax PosInfinity y = PosInfinity"
| "mathMax x PosInfinity = PosInfinity"
| "mathMax NegInfinity y = y"
| "mathMax x NegInfinity = x"
| "mathMax (Num a) (Num b) = Num (max a b)"

fun jsLess :: "number \<Rightarrow> number \<Rightarrow> bool" where
  "jsLess NaN y = False"
| "jsLess x NaN = False"
| "jsLess PosInfinity y = False"
| "jsLess x NegInfinity = False"
| "jsLess NegInfinity y = True"
| "jsLess x PosInfinity = True"
| "jsLess (Num a) (Num b) = (a < b)"

text \<open>The product of a number and a finite factor.\<close>

fun jsTimes :: "number \<Rightarrow> rat \<Rightarrow> number" where
  "jsTimes NaN k = NaN"
| "jsTimes (Num a) k = Num (a * k)"
| "jsTimes PosInfinity k = (if k = 0 then NaN else if 0 < k then PosInfinity else NegInfinity)"
| "jsTimes NegInfinity k = (if k = 0 then NaN else if 0 < k then NegInfinity else PosInfinity)"

text \<open>\<open>ToInt16\<close>, the conversion that \<open>DataView.prototype.setInt16\<close> applies: NaN and the
  infinities give 0; a finite value is truncated towards zero and wrapped into
  \<open>[-32768, 32767]\<close>.\<close>

definition jsTruncate :: "rat \<Rightarrow> int" where
  "jsTruncate q = (if q < 0 then - \<lfloor>- q\<rfloor> else \<lfloor>q\<rfloor>)"

fun toInt16 :: "number \<Rightarrow> int" where
  "toInt16 (Num q) =
     (let int16bit = jsTruncate q mod 65536
      in if int16bit \<ge> 32768 then int16bit - 65536 else int16bit)"
| "toInt16 x = 0"

text \<open>The bytes of an unsigned value, least significant first, and their order in the
  buffer.\<close>

primrec uintBytes :: "nat \<Rightarrow> nat \<Rightarrow> byte list" where
  "uintBytes 0 n = []"
| "uintBytes (Suc k) n = of_nat n # uintBytes k (n div 256)"

definition byteOrder :: "bool \<Rightarrow> byte list \<Rightarrow> byte list" where
  "byteOrder littleEndian bs = (if littleEndian then bs else rev bs)"

text \<open>The setters of \<open>DataView\<close>: the value is wrapped to the width of the field and
  written at the offset; a write out of range throws.\<close>

definition setUint8 :: "byte list \<Rightarrow> nat \<Rightarrow> nat \<Rightarrow> jsError + byte list" where
  "setUint8 view offset v = setBytes view offset (uintBytes 1 (v mod 2 ^ 8))"

definition setUint16 :: "byte list \<Rightarrow> nat \<Rightarrow> nat \<Rightarrow> bool \<Rightarrow> jsError + byte list" where
  "setUint16 view offset v littleEndian =
     setBytes view offset (byteOrder littleEndian (uintBytes 2 (v mod 2 ^ 16)))"

definition setUint32 :: "byte list \<Rightarrow> nat \<Rightarrow> nat \<Rightarrow> bool \<Rightarrow> jsError + byte list" where
  "setUint32 view offset v littleEndian =
     setBytes view offset (byteOrder littleEndian (uintBytes 4 (v mod 2 ^ 32)))"

definition setInt16 :: "byte list \<Rightarrow> nat \<Rightarrow> number \<Rightarrow> bool \<Rightarrow> jsError + byte list" where
  "setInt16 view offset v littleEndian =
     setBytes view offset (byteOrder littleEndian (uintBytes 2 (nat (toInt16 v mod 65536))))"

text \<open>Lines 412 to 416.\<close>

fun writeString :: "byte list \<Rightarrow> nat \<Rightarrow> jsString \<Rightarrow> jsError + byte list" where
  "writeString view offset [] = Inr view"
| "writeString view offset (c # str) =
     andThen (setUint8 view offset (unat c)) (\<lambda>view. writeString view (offset + 1) str)"

text \<open>Lines 418 to 430: the header.\<close>

definition writeHeader ::
  "byte list \<Rightarrow> nat \<Rightarrow> nat \<Rightarrow> nat \<Rightarrow> nat \<Rightarrow> nat \<Rightarrow> nat \<Rightarrow> jsError + byte list" where
  "writeHeader view numChannels sampleRate byteRate blockAlign bitsPerSample dataSize =
     andThen (writeString view 0 (lit ''RIFF'')) (\<lambda>view.
     andThen (setUint32 view 4 (36 + dataSize) True) (\<lambda>view.
     andThen (writeString view 8 (lit ''WAVE'')) (\<lambda>view.
     andThen (writeString view 12 (lit ''fmt '')) (\<lambda>view.
     andThen (setUint32 view 16 16 True) (\<lambda>view.
     andThen (setUint16 view 20 1 True) (\<lambda>view.
     andThen (setUint16 view 22 numChannels True) (\<lambda>view.
     andThen (setUint32 view 24 sampleRate True) (\<lambda>view.
     andThen (setUint32 view 28 byteRate True) (\<lambda>view.
     andThen (setUint16 view 32 blockAlign True) (\<lambda>view.
     andThen (setUint16 view 34 bitsPerSample True) (\<lambda>view.
     andThen (writeString view 36 (lit ''data'')) (\<lambda>view.
     setUint32 view 40 dataSize True))))))))))))"

text \<open>Lines 433 to 439: the samples.\<close>

fun writeSamples :: "byte list \<Rightarrow> nat \<Rightarrow> number list \<Rightarrow> jsError + byte list" where
  "writeSamples view offset [] = Inr view"
| "writeSamples view offset (x # audioData) =
     (let sample = mathMax (Num (- 1)) (mathMin (Num 1) x);
          intSample = (if jsLess sample (Num 0) then jsTimes sample 32768 else jsTimes sample 32767)
      in andThen (setInt16 view offset intSample True)
           (\<lambda>view. writeSamples view (offset + 2) audioData))"

text \<open>
  \<open>float32ArrayToWav\<close> (lines 401 to 442).  The buffer of \<open>44 + dataSize\<close> bytes starts
  out zeroed; its allocation is taken to succeed.
\<close>

definition float32ArrayToWav :: "number list \<Rightarrow> nat \<Rightarrow> jsError + blob" where
  "float32ArrayToWav audioData sampleRate =
     (let numChannels = 1 :: nat;
          bitsPerSample = 16 :: nat;
          bytesPerSample = bitsPerSample div 8;
          blockAlign = numChannels * bytesPerSample;
          byteRate = sampleRate * blockAlign;
          dataSize = length audioData * bytesPerSample;
          view = replicate (44 + dataSize) 0
      in andThen (writeHeader view numChannels sampleRate byteRate blockAlign bitsPerSample dataSize)
           (\<lambda>view.
         andThen (writeSamples view 44 audioData) (\<lambda>view.
         Inr \<lparr>blobBytes = view, blobType = lit ''audio/wav''\<rparr>)))"

subsection \<open>Vocabulary of the claims about the container\<close>

text \<open>The getters of \<open>DataView\<close>, with which a header is inspected and a sample decoded.\<close>

primrec uintOf :: "byte list \<Rightarrow> nat" where
  "uintOf [] = 0"
| "uintOf (b # bs) = unat b + 256 * uintOf bs"

definition getBytes :: "byte list \<Rightarrow> nat \<Rightarrow> nat \<Rightarrow> jsError + byte list" where
  "getBytes view offset n =
     (if offset + n \<le> length view then Inr (take n (drop offset view)) else Inl rangeError)"

definition getUint16 :: "byte list \<Rightarrow> nat \<Rightarrow> bool \<Rightarrow> jsError + nat" where
  "getUint16 view offset littleEndian =
     andThen (getBytes view offset 2) (\<lambda>bs. Inr (uintOf (byteOrder littleEndian bs)))"

definition getUint32 :: "byte list \<Rightarrow> nat \<Rightarrow> bool \<Rightarrow> jsError + nat" where
  "getUint32 view offset littleEndian =
     andThen (getBytes view offset 4) (\<lambda>bs. Inr (uintOf (byteOrder littleEndian bs)))"

definition getInt16 :: "byte list \<Rightarrow> nat \<Rightarrow> bool \<Rightarrow> jsError + int" where
  "getInt16 view offset littleEndian =
     andThen (getBytes view offset 2)
       (\<lambda>bs. let u = int (uintOf (byteOrder littleEndian bs))
             in Inr (if u \<ge> 32768 then u - 65536 else u))"

text \<open>The header in closed form, and the two bytes of a sample.\<close>

definition wavHeader :: "nat \<Rightarrow> nat \<Rightarrow> byte list" where
  "wavHeader audioLength sampleRate =
     [0x52, 0x49, 0x46, 0x46] @ uintBytes 4 ((36 + audioLength * 2) mod 2 ^ 32)
     @ [0x57, 0x41, 0x56, 0x45] @ [0x66, 0x6D, 0x74, 0x20]
     @ uintBytes 4 16 @ uintBytes 2 1 @ uintBytes 2 1
     @ uintBytes 4 (sampleRate mod 2 ^ 32) @ uintBytes 4 (sampleRate * 2 mod 2 ^ 32)
     @ uintBytes 2 2 @ uintBytes 2 16
     @ [0x64, 0x61, 0x74, 0x61] @ uintBytes 4 (audioLength * 2 mod 2 ^ 32)"

definition pcmBytes :: "number \<Rightarrow> byte list" where
  "pcmBytes x =
     (let sample = mathMax (Num (- 1)) (mathMin (Num 1) x);
          intSample = (if jsLess sample (Num 0) then jsTimes sample 32768 else jsTimes sample 32767)
      in uintBytes 2 (nat (toInt16 intSample mod 65536)))"

text \<open>
  The words of the contract: a sample clamped to \<open>[-1, 1]\<close> (NaN has no clamped value),
  and the clamped value scaled to the 16-bit signed integers: \<open>-1\<close> to \<open>-32768\<close>, \<open>1\<close> to
  \<open>32767\<close>, linearly on either side of 0, the fraction dropped.
\<close>

fun clampToUnit :: "number \<Rightarrow> rat option" where
  "clampToUnit (Num q) = Some (max (- 1) (min 1 q))"
| "clampToUnit PosInfinity = Some 1"
| "clampToUnit NegInfinity = Some (- 1)"
| "clampToUnit NaN = None"

definition scaleToInt16 :: "rat \<Rightarrow> int" where
  "scaleToInt16 c = jsTruncate (if c < 0 then c * 32768 else c * 32767)"

text \<open>Four samples and the container they give at 16000 samples per second.\<close>

definition fourSamples :: "number list" where
  "fourSamples = [Num (1 / 2), Num (- 1), NaN, Num 3]"

definition fourSamplesWav :: "byte list" where
  "fourSamplesWav =
     [0x52, 0x49, 0x46, 0x46, 44, 0, 0, 0, 0x57, 0x41, 0x56, 0x45,
      0x66, 0x6D, 0x74, 0x20, 16, 0, 0, 0, 1, 0, 1, 0,
      0x80, 0x3E, 0, 0, 0x00, 0x7D, 0, 0, 2, 0, 16, 0,
      0x64, 0x61, 0x74, 0x61, 8, 0, 0, 0,
      0xFF, 0x3F, 0x00, 0x80, 0, 0, 0xFF, 0x7F]"


section \<open>Facts about strings and the splitting loop\<close>

lemma substring_take: "0 \<le> i \<Longrightarrow> substring s 0 i = take (nat i) s"
  by (simp add: substring_def Let_def min_def max_def)

lemma substringFrom_drop: "0 \<le> i \<Longrightarrow> substringFrom s i = drop (nat i) s"
  by (simp add: substringFrom_def substring_def Let_def min_def max_def)

lemma filter_dropWhile_neg: "filter (\<lambda>c. \<not> P c) (dropWhile P s) = filter (\<lambda>c. \<not> P c) s"
  by (induction s) auto

lemma filter_trim: "filter (\<lambda>c. \<not> isWhiteSpace c) (trim s) = filter (\<lambda>c. \<not> isWhiteSpace c) s"
proof -
  have "filter (\<lambda>c. \<not> isWhiteSpace c) (trim s)
          = rev (filter (\<lambda>c. \<not> isWhiteSpace c) (dropWhile isWhiteSpace (rev (dropWhile isWhiteSpace s))))"
    by (simp add: trim_def rev_filter)
  also have "\<dots> = rev (filter (\<lambda>c. \<not> isWhiteSpace c) (rev (dropWhile isWhiteSpace s)))"
    by (simp only: filter_dropWhile_neg)
  also have "\<dots> = filter (\<lambda>c. \<not> isWhiteSpace c) (dropWhile isWhiteSpace s)"
    by (simp add: rev_filter)
  finally show ?thesis by (simp only: filter_dropWhile_neg)
qed

lemma chooseSplit_pos: "1 \<le> chooseSplit r"
  by (simp add: chooseSplit_def Let_def MAX_CHARS_def)

lemma chooseSplit_cases:
  "chooseSplit r = int MAX_CHARS \<or> (400 \<le> findSplit r \<and> chooseSplit r = findSplit r + 1)"
  by (simp add: chooseSplit_def Let_def MAX_CHARS_def)

lemma searchDown_range: "searchDown s pat n = - 1 \<or> (0 \<le> searchDown s pat n \<and> searchDown s pat n \<le> int n \<and> matchesAt s pat (nat (searchDown s pat n)))"
proof (induction n)
  case 0
  show ?case by simp
next
  case (Suc n)
  have "nat (int (Suc n)) = Suc n" by simp
  with Suc show ?case by (auto simp del: of_nat_Suc)
qed

lemma lastIndexOf_range: "lastIndexOf s pat p = - 1 \<or> (0 \<le> lastIndexOf s pat p \<and> lastIndexOf s pat p \<le> int p \<and> matchesAt s pat (nat (lastIndexOf s pat p)))"
  using searchDown_range [of s pat "min p (length s - length pat)"]
  by (auto simp: lastIndexOf_def)

lemma findSplit_range: "findSplit r = - 1 \<or> (0 \<le> findSplit r \<and> findSplit r \<le> int MAX_CHARS)"
  unfolding findSplit_def Let_def
  using lastIndexOf_range [of r "lit ''. ''" MAX_CHARS]
        lastIndexOf_range [of r "lit ''? ''" MAX_CHARS]
        lastIndexOf_range [of r "lit ''! ''" MAX_CHARS]
        lastIndexOf_range [of r newline MAX_CHARS]
        lastIndexOf_range [of r "lit '', ''" MAX_CHARS]
        lastIndexOf_range [of r "lit '' ''" MAX_CHARS]
  by presburger

lemma chooseSplit_le: "chooseSplit r \<le> int MAX_CHARS + 1"
  using chooseSplit_cases [of r] findSplit_range [of r] by auto


declare splitLoop.simps [simp del]

lemma splitLoop_short: "length r \<le> MAX_CHARS \<Longrightarrow> splitLoop r chunks = (if r = [] then chunks else chunks @ [r])"
  by (subst splitLoop.simps) simp

lemma splitLoop_long: "MAX_CHARS < length r \<Longrightarrow>
   splitLoop r chunks = splitLoop (trim (substringFrom r (chooseSplit r))) (chunks @ [substring r 0 (chooseSplit r)])"
  by (subst splitLoop.simps) (auto simp: Let_def)

lemma splitLoop_nonws:
  "filter (\<lambda>c. \<not> isWhiteSpace c) (concat (splitLoop r chunks))
     = filter (\<lambda>c. \<not> isWhiteSpace c) (concat chunks) @ filter (\<lambda>c. \<not> isWhiteSpace c) r"
proof (induction r chunks rule: splitLoop.induct)
  case (1 r chunks)
  show ?case
  proof (cases "MAX_CHARS < length r")
    case True
    let ?i = "chooseSplit r"
    from True have nz: "0 < length r" and long: "\<not> length r \<le> MAX_CHARS" by auto
    have i0: "0 \<le> ?i" using chooseSplit_pos [of r] by simp
    have "filter (\<lambda>c. \<not> isWhiteSpace c) (concat (splitLoop r chunks))
            = filter (\<lambda>c. \<not> isWhiteSpace c) (concat (chunks @ [substring r 0 ?i]))
              @ filter (\<lambda>c. \<not> isWhiteSpace c) (trim (substringFrom r ?i))"
      using True "1.IH" [OF nz long refl] by (simp add: splitLoop_long)
    also have "\<dots> = filter (\<lambda>c. \<not> isWhiteSpace c) (concat chunks)
              @ filter (\<lambda>c. \<not> isWhiteSpace c) (take (nat ?i) r @ drop (nat ?i) r)"
      by (simp add: filter_trim substring_take [OF i0] substringFrom_drop [OF i0]
            del: append_take_drop_id)
    finally show ?thesis by simp
  next
    case False
    then show ?thesis by (simp add: splitLoop_short)
  qed
qed

lemma splitLoop_bound:
  "\<forall>c \<in> set chunks. length c \<le> MAX_CHARS + 1 \<Longrightarrow> c \<in> set (splitLoop r chunks) \<Longrightarrow> length c \<le> MAX_CHARS + 1"
proof (induction r chunks rule: splitLoop.induct)
  case (1 r chunks)
  show ?case
  proof (cases "MAX_CHARS < length r")
    case True
    have i0: "0 \<le> chooseSplit r" using chooseSplit_pos [of r] by simp
    have "length (substring r 0 (chooseSplit r)) \<le> MAX_CHARS + 1"
      using chooseSplit_le [of r] by (simp add: substring_take [OF i0])
    moreover from True have nz: "0 < length r" and long: "\<not> length r \<le> MAX_CHARS" by auto
    ultimately show ?thesis
      using True "1.IH" [OF nz long refl] "1.prems" by (simp add: splitLoop_long)
  next
    case False
    with "1.prems" show ?thesis
      by (auto simp: splitLoop_short split: if_splits)
  qed
qed

lemma lit_tokens:
  "lit ''. '' = [0x2E, 0x20]" "lit ''? '' = [0x3F, 0x20]" "lit ''! '' = [0x21, 0x20]"
  "lit '', '' = [0x2C, 0x20]" "lit '' '' = [0x20]" "lit ''b'' = [0x62]"
  by (simp_all add: lit_def)

lemma searchDown_hit: "matchesAt s pat n \<Longrightarrow> searchDown s pat n = int n"
  by (cases n) simp_all

lemma searchDown_none: "(\<And>j. j \<le> n \<Longrightarrow> \<not> matchesAt s pat j) \<Longrightarrow> searchDown s pat n = - 1"
  by (induction n) simp_all

lemma searchDown_last:
  "k \<le> n \<Longrightarrow> matchesAt s pat k \<Longrightarrow> (\<And>j. k < j \<Longrightarrow> j \<le> n \<Longrightarrow> \<not> matchesAt s pat j)
     \<Longrightarrow> searchDown s pat n = int k"
proof (induction n)
  case 0
  then show ?case by simp
next
  case (Suc n)
  show ?case
  proof (cases "k = Suc n")
    case True
    with Suc.prems show ?thesis by (simp add: searchDown_hit)
  next
    case False
    with Suc.prems have "k \<le> n" "\<not> matchesAt s pat (Suc n)" by auto
    with Suc show ?thesis by simp
  qed
qed

lemma matchesAt_bound: "matchesAt s pat k \<Longrightarrow> k + length pat \<le> length s"
  by (simp add: matchesAt_def)

lemma lastIndexOf_last:
  assumes "matchesAt s pat k" "k \<le> p"
    and "\<And>j. k < j \<Longrightarrow> j \<le> p \<Longrightarrow> \<not> matchesAt s pat j"
  shows "lastIndexOf s pat p = int k"
proof -
  from assms(1) have b: "k + length pat \<le> length s" by (rule matchesAt_bound)
  then have "k \<le> min p (length s - length pat)" using assms(2) by simp
  moreover have "\<not> matchesAt s pat j" if "k < j" "j \<le> min p (length s - length pat)" for j
    using that assms(3) by simp
  ultimately have "searchDown s pat (min p (length s - length pat)) = int k"
    using assms(1) by (intro searchDown_last) auto
  with b show ?thesis by (simp add: lastIndexOf_def)
qed

lemma lastIndexOf_none:
  assumes "\<And>j. j \<le> p \<Longrightarrow> \<not> matchesAt s pat j"
  shows "lastIndexOf s pat p = - 1"
  using assms by (simp add: lastIndexOf_def searchDown_none)

lemma matchesAt_head: "matchesAt s (c # pat) k \<Longrightarrow> k < length s \<and> s ! k = c"
proof -
  assume m: "matchesAt s (c # pat) k"
  then have lt: "k < length s" by (simp add: matchesAt_def)
  then have "drop k s = s ! k # drop (Suc k) s" by (simp add: Cons_nth_drop_Suc)
  with m lt show ?thesis by (simp add: matchesAt_def)
qed

lemma matchesAt_absent: "c \<notin> set s \<Longrightarrow> \<not> matchesAt s (c # pat) k"
  using matchesAt_head [of s c pat k] nth_mem [of k s] by auto

lemma matchesAt_append_right:
  "matchesAt (xs @ ys) pat (length xs + j) = matchesAt ys pat j"
  by (simp add: matchesAt_def)

lemma lastIndexOf_absent: "c \<notin> set s \<Longrightarrow> lastIndexOf s (c # pat) p = - 1"
  by (rule lastIndexOf_none) (simp add: matchesAt_absent)

lemma lastIndexOf_prefix:
  assumes "matchesAt (pre @ post) (c # pat) k" "length pre = Suc k" "c \<notin> set post" "k \<le> p"
  shows "lastIndexOf (pre @ post) (c # pat) p = int k"
proof (rule lastIndexOf_last [OF assms(1) assms(4)])
  fix j assume "k < j" "j \<le> p"
  then have "j = length pre + (j - length pre)"
    using assms(2) by simp
  then obtain j' where "j = length pre + j'" ..
  then show "\<not> matchesAt (pre @ post) (c # pat) j"
    using assms(3) by (simp add: matchesAt_append_right matchesAt_absent)
qed

lemma findSplit_firstFound: "findSplit r = firstFound r boundaryTokens"
  by (simp add: findSplit_def boundaryTokens_def Let_def)

lemma firstFound_skip:
  "(\<And>t. t \<in> set before \<Longrightarrow> lastIndexOf r t MAX_CHARS = - 1) \<Longrightarrow>
   firstFound r (before @ toks) = firstFound r toks"
  by (induction before) simp_all

lemma length_textSentenceAtCeiling: "length textSentenceAtCeiling = 4003"
  by (simp add: textSentenceAtCeiling_def lit_tokens)

lemma findSplit_textSentenceAtCeiling: "findSplit textSentenceAtCeiling = 4000"
proof -
  have "matchesAt textSentenceAtCeiling (lit ''. '') 4000"
    by (simp add: matchesAt_def textSentenceAtCeiling_def lit_tokens)
  then have "lastIndexOf textSentenceAtCeiling (lit ''. '') MAX_CHARS = 4000"
    by (simp add: lastIndexOf_def length_textSentenceAtCeiling lit_tokens MAX_CHARS_def searchDown_hit)
  then show ?thesis by (simp add: findSplit_def Let_def)
qed

lemma chooseSplit_textSentenceAtCeiling: "chooseSplit textSentenceAtCeiling = 4001"
  by (simp add: chooseSplit_def findSplit_textSentenceAtCeiling MAX_CHARS_def)

lemma trim_space_b: "trim [0x20, 0x62] = [0x62]"
  by (simp add: trim_def isWhiteSpace_def)

lemma splitText_textSentenceAtCeiling:
  "splitText textSentenceAtCeiling = [replicate 4000 0x61 @ [0x2E], [0x62]]"
proof -
  have "substring textSentenceAtCeiling 0 4001 = replicate 4000 0x61 @ [0x2E]"
    by (simp add: substring_take textSentenceAtCeiling_def lit_tokens)
  moreover have "trim (substringFrom textSentenceAtCeiling 4001) = [0x62]"
    by (simp add: substringFrom_drop textSentenceAtCeiling_def lit_tokens trim_space_b)
  ultimately show ?thesis
    by (simp add: splitText_def splitLoop_long length_textSentenceAtCeiling MAX_CHARS_def
        chooseSplit_textSentenceAtCeiling splitLoop_short)
qed

lemma splitText_chunk_bound: "c \<in> set (splitText text) \<Longrightarrow> length c \<le> MAX_CHARS + 1"
  unfolding splitText_def by (rule splitLoop_bound [of "[]"]) simp_all

lemma length_textEarlySentence: "length textEarlySentence = 5503"
  by (simp add: textEarlySentence_def lit_tokens)

lemma findSplit_textEarlySentence: "findSplit textEarlySentence = 0"
proof -
  have split: "textEarlySentence = [0x2E] @ (0x20 # replicate 500 0x61 @ 0x20 # replicate 5000 0x61)"
    by (simp add: textEarlySentence_def lit_tokens)
  have "matchesAt textEarlySentence [0x2E, 0x20] 0"
    by (simp add: matchesAt_def textEarlySentence_def lit_tokens)
  then have "lastIndexOf ([0x2E] @ (0x20 # replicate 500 0x61 @ 0x20 # replicate 5000 0x61)) [0x2E, 0x20] MAX_CHARS = int 0"
    unfolding split by (rule lastIndexOf_prefix) simp_all
  then show ?thesis
    by (simp add: findSplit_def Let_def lit_tokens split)
qed

lemma chooseSplit_textEarlySentence: "chooseSplit textEarlySentence = 4000"
  by (simp add: chooseSplit_def findSplit_textEarlySentence MAX_CHARS_def)

lemma textEarlySentence_space: "matchesAt textEarlySentence (lit '' '') 502"
  by (simp add: matchesAt_def textEarlySentence_def lit_tokens)

lemma textEarlySentence_letters:
  "textEarlySentence ! 3999 = 0x61" "textEarlySentence ! 4000 = 0x61"
  by (simp_all add: textEarlySentence_def lit_tokens nth_append)

lemma boundaryInWindow_textEarlySentence: "boundaryInWindow textEarlySentence"
proof -
  have "(502::nat) \<in> set [400 ..< Suc MAX_CHARS]" by (simp add: MAX_CHARS_def)
  moreover have "lit '' '' \<in> set boundaryTokens" by (simp add: boundaryTokens_def)
  ultimately show ?thesis
    unfolding boundaryInWindow_def list_ex_iff
    using textEarlySentence_space by blast
qed

lemma not_splitsAtBoundary_textEarlySentence: "\<not> splitsAtBoundary textEarlySentence"
proof -
  have "\<not> matchesAt textEarlySentence (c # pat) 3999" if "c \<noteq> 0x61" for c pat
    using matchesAt_head [of textEarlySentence c pat 3999] that textEarlySentence_letters(1) by auto
  then show ?thesis
    by (simp add: splitsAtBoundary_def boundaryTokens_def chooseSplit_textEarlySentence lit_tokens newline_def)
qed

lemma firstFound_priority:
  assumes "\<And>t. t \<in> set before \<Longrightarrow> lastIndexOf r t MAX_CHARS = - 1"
    and "lastIndexOf r tok MAX_CHARS = int k"
  shows "firstFound r (before @ tok # after) = int k"
  using assms by (simp add: firstFound_skip)



lemma sublist_trim: "sublist (trim s) s"
proof -
  let ?d = "dropWhile isWhiteSpace s"
  have "sublist (dropWhile isWhiteSpace (rev ?d)) (rev ?d)" by simp
  then have "sublist (rev (dropWhile isWhiteSpace (rev ?d))) (rev (rev ?d))"
    by (simp only: sublist_rev)
  then have "sublist (trim s) ?d" by (simp add: trim_def)
  moreover have "sublist ?d s" by simp
  ultimately show ?thesis by (rule sublist_order.order.trans)
qed

lemma subseq_trim: "subseq (trim s) s"
  by (rule sublist_imp_subseq [OF sublist_trim])

lemma splitLoop_subseq: "subseq (concat (splitLoop r chunks)) (concat chunks @ r)"
proof (induction r chunks rule: splitLoop.induct)
  case (1 r chunks)
  show ?case
  proof (cases "MAX_CHARS < length r")
    case True
    let ?i = "nat (chooseSplit r)"
    from True have nz: "0 < length r" and long: "\<not> length r \<le> MAX_CHARS" by auto
    have i0: "0 \<le> chooseSplit r" using chooseSplit_pos [of r] by simp
    have A: "subseq (concat (splitLoop r chunks)) (concat (chunks @ [take ?i r]) @ trim (drop ?i r))"
      using True "1.IH" [OF nz long refl]
      by (simp add: splitLoop_long substring_take [OF i0] substringFrom_drop [OF i0])
    have B: "subseq (concat (chunks @ [take ?i r]) @ trim (drop ?i r))
                     (concat (chunks @ [take ?i r]) @ drop ?i r)"
      by (simp only: subseq_append' subseq_trim)
    have C: "concat (chunks @ [take ?i r]) @ drop ?i r = concat chunks @ r"
      by simp
    from subseq_order.trans [OF A B] show ?thesis
      by (simp only: C)
  next
    case False
    then show ?thesis by (simp add: splitLoop_short)
  qed
qed

lemma matchesAt_after_prefix:
  assumes "length pre = Suc k" "c \<notin> set post" "k < j"
  shows "\<not> matchesAt (pre @ post) (c # pat) j"
proof -
  have "j = length pre + (j - length pre)" using assms(1,3) by simp
  then obtain j' where "j = length pre + j'" ..
  then show ?thesis using assms(2) by (simp add: matchesAt_append_right matchesAt_absent)
qed

lemma dropWhile_replicate: "dropWhile P (replicate n x) = (if P x then [] else replicate n x)"
  by (induction n) (simp_all add: replicate_app_Cons_same)

lemma length_textMidSentence: "length textMidSentence = 5002"
  by (simp add: textMidSentence_def lit_tokens)

lemma textMidSentence_question: "matchesAt textMidSentence (lit ''? '') 3000"
  by (simp add: matchesAt_def textMidSentence_def lit_tokens)

lemma textMidSentence_no_period: "\<not> matchesAt textMidSentence (lit ''. '') j"
  by (simp add: lit_tokens matchesAt_absent textMidSentence_def)

lemma textMidSentence_last_question: "3000 < j \<Longrightarrow> \<not> matchesAt textMidSentence (lit ''? '') j"
proof -
  assume j: "3000 < j"
  have split: "textMidSentence = (replicate 3000 0x61 @ [0x3F]) @ (0x20 # replicate 2000 0x62)"
    by (simp add: textMidSentence_def lit_tokens)
  show ?thesis
    unfolding split lit_tokens
    by (rule matchesAt_after_prefix [where k = 3000]) (simp_all add: j)
qed

lemma trim_textMidSentence_rest: "trim (0x20 # replicate 2000 0x62) = replicate 2000 0x62"
  by (simp add: trim_def isWhiteSpace_def dropWhile_replicate)

lemma rev_dropWhile_takeWhile:
  "xs = rev (dropWhile P (rev xs)) @ rev (takeWhile P (rev xs))"
proof -
  have "rev (takeWhile P (rev xs) @ dropWhile P (rev xs)) = rev (rev xs)"
    by (simp only: takeWhile_dropWhile_id)
  then show ?thesis by (simp only: rev_append rev_rev_ident)
qed

lemma dropWhile_trim:
  "dropWhile isWhiteSpace s
     = trim s @ rev (takeWhile isWhiteSpace (rev (dropWhile isWhiteSpace s)))"
  unfolding trim_def by (rule rev_dropWhile_takeWhile)

lemma trim_decompose:
  "\<exists>lead trail. s = lead @ trim s @ trail
      \<and> list_all isWhiteSpace lead \<and> list_all isWhiteSpace trail"
proof -
  let ?lead = "takeWhile isWhiteSpace s"
  let ?trail = "rev (takeWhile isWhiteSpace (rev (dropWhile isWhiteSpace s)))"
  have "s = ?lead @ dropWhile isWhiteSpace s" by simp
  also have "\<dots> = ?lead @ trim s @ ?trail"
    using dropWhile_trim [of s] by simp
  finally have "s = ?lead @ trim s @ ?trail" .
  moreover have "list_all isWhiteSpace ?lead"
    by (simp add: list_all_iff) (meson set_takeWhileD)
  moreover have "list_all isWhiteSpace ?trail"
    by (simp add: list_all_iff) (meson set_takeWhileD)
  ultimately show ?thesis by blast
qed

lemma trim_hd: "trim s \<noteq> [] \<Longrightarrow> \<not> isWhiteSpace (hd (trim s))"
proof -
  assume ne: "trim s \<noteq> []"
  let ?d = "dropWhile isWhiteSpace s"
  let ?trail = "rev (takeWhile isWhiteSpace (rev ?d))"
  have b: "?d = trim s @ ?trail" by (rule dropWhile_trim)
  from ne have "hd (trim s @ ?trail) = hd (trim s)" by simp
  with b have h: "hd ?d = hd (trim s)" by simp
  from ne b have "?d \<noteq> []" by (metis append_is_Nil_conv)
  then have "\<not> isWhiteSpace (hd ?d)" by (rule hd_dropWhile)
  with h show ?thesis by simp
qed

lemma trim_last: "trim s \<noteq> [] \<Longrightarrow> \<not> isWhiteSpace (last (trim s))"
proof -
  assume ne: "trim s \<noteq> []"
  let ?e = "dropWhile isWhiteSpace (rev (dropWhile isWhiteSpace s))"
  from ne have e: "?e \<noteq> []" by (simp add: trim_def)
  then have "\<not> isWhiteSpace (hd ?e)" by (rule hd_dropWhile)
  moreover have "last (trim s) = hd ?e"
    using e by (simp add: trim_def last_rev)
  ultimately show ?thesis by simp
qed

lemma interleave_Cons: "interleave (c # cs) (g # gs) = c @ g @ interleave cs gs"
  by (simp add: interleave_def)

lemma interleave_Nil [simp]: "interleave [] gs = []"
  by (simp add: interleave_def)

lemma interleave_tail:
  "cs \<noteq> [] \<Longrightarrow> length gs = length cs \<Longrightarrow>
   interleave cs (butlast gs @ [last gs @ t]) = interleave cs gs @ t"
proof (induction cs arbitrary: gs)
  case Nil
  then show ?case by simp
next
  case (Cons c cs)
  from Cons.prems(2) obtain g gs' where gs: "gs = g # gs'" and len: "length gs' = length cs"
    by (cases gs) auto
  show ?case
  proof (cases "cs = []")
    case True
    with gs len show ?thesis by (simp add: interleave_Cons)
  next
    case False
    with len have "gs' \<noteq> []" by auto
    with Cons.IH [OF False len] gs show ?thesis by (simp add: interleave_Cons)
  qed
qed

lemma length_remainder:
  "MAX_CHARS < length r \<Longrightarrow> length (trim (substringFrom r (chooseSplit r))) < length r"
proof -
  assume long: "MAX_CHARS < length r"
  have i: "1 \<le> chooseSplit r" by (rule chooseSplit_pos)
  then have i0: "0 \<le> chooseSplit r" by simp
  have "length (trim (substringFrom r (chooseSplit r))) \<le> length (substringFrom r (chooseSplit r))"
    using sublist_trim [of "substringFrom r (chooseSplit r)"] by (rule sublist_length_le)
  also have "\<dots> < length r"
    using long i by (simp add: substringFrom_drop [OF i0] MAX_CHARS_def)
  finally show ?thesis .
qed

lemma splitLoop_append: "splitLoop r chunks = chunks @ splitLoop r []"
proof (induction "length r" arbitrary: r chunks rule: less_induct)
  case less
  show ?case
  proof (cases "MAX_CHARS < length r")
    case True
    let ?r' = "trim (substringFrom r (chooseSplit r))"
    let ?c = "substring r 0 (chooseSplit r)"
    have shorter: "length ?r' < length r" using True by (rule length_remainder)
    have "splitLoop r chunks = (chunks @ [?c]) @ splitLoop ?r' []"
      using less [OF shorter, of "chunks @ [?c]"] True by (simp add: splitLoop_long)
    moreover have "splitLoop r [] = [?c] @ splitLoop ?r' []"
      using less [OF shorter, of "[?c]"] True by (simp add: splitLoop_long)
    ultimately show ?thesis by simp
  next
    case False
    then show ?thesis by (simp add: splitLoop_short)
  qed
qed

lemma splitText_long:
  "MAX_CHARS < length r \<Longrightarrow>
   splitText r = substring r 0 (chooseSplit r) # splitText (trim (substringFrom r (chooseSplit r)))"
  unfolding splitText_def
  using splitLoop_append [of "trim (substringFrom r (chooseSplit r))" "[substring r 0 (chooseSplit r)]"]
  by (simp add: splitLoop_long)

lemma splitText_short:
  "length r \<le> MAX_CHARS \<Longrightarrow> splitText r = (if r = [] then [] else [r])"
  by (simp add: splitText_def splitLoop_short)

lemma splitText_Nil_iff: "splitText r = [] \<longleftrightarrow> r = []"
  by (cases "MAX_CHARS < length r") (auto simp: splitText_long splitText_short)

lemma splitText_gaps:
  "\<exists>gaps. length gaps = length (splitText r) \<and> interleave (splitText r) gaps = r
          \<and> list_all (list_all isWhiteSpace) gaps"
proof (induction "length r" arbitrary: r rule: less_induct)
  case less
  show ?case
  proof (cases "MAX_CHARS < length r")
    case False
    then show ?thesis
      by (cases "r = []") (auto simp: splitText_short interleave_def intro: exI [of _ "[[]]"])
  next
    case True
    let ?i = "chooseSplit r"
    let ?r' = "trim (substringFrom r ?i)"
    let ?c = "substring r 0 ?i"
    have i0: "0 \<le> ?i" using chooseSplit_pos [of r] by simp
    have shorter: "length ?r' < length r" using True by (rule length_remainder)
    from less [OF shorter] obtain gaps' where
      len: "length gaps' = length (splitText ?r')" and weave: "interleave (splitText ?r') gaps' = ?r'"
      and ws: "list_all (list_all isWhiteSpace) gaps'" by blast
    from trim_decompose [of "substringFrom r ?i"] obtain lead trail where
      dec: "substringFrom r ?i = lead @ ?r' @ trail"
      and wl: "list_all isWhiteSpace lead" and wt: "list_all isWhiteSpace trail" by blast
    have whole: "r = ?c @ lead @ ?r' @ trail"
      using dec by (simp add: substring_take [OF i0] substringFrom_drop [OF i0])
    have st: "splitText r = ?c # splitText ?r'" using True by (rule splitText_long)
    show ?thesis
    proof (cases "splitText ?r' = []")
      case True
      then have "?r' = []" by (simp add: splitText_Nil_iff)
      with whole have "r = ?c @ lead @ trail" by simp
      then have "interleave [?c] [lead @ trail] = r" by (simp add: interleave_def)
      moreover have "list_all (list_all isWhiteSpace) [lead @ trail]" using wl wt by simp
      ultimately show ?thesis using st True by (intro exI [of _ "[lead @ trail]"]) simp
    next
      case False
      let ?gaps = "lead # (butlast gaps' @ [last gaps' @ trail])"
      from False len have ne: "gaps' \<noteq> []" by auto
      have "interleave (splitText ?r') (butlast gaps' @ [last gaps' @ trail]) = ?r' @ trail"
        using interleave_tail [OF False len, of trail] weave by simp
      then have "interleave (?c # splitText ?r') ?gaps = ?c @ lead @ ?r' @ trail"
        by (simp add: interleave_Cons)
      then have a: "interleave (splitText r) ?gaps = r" using st whole by simp
      from ne have "length (butlast gaps' @ [last gaps' @ trail]) = length gaps'"
        by (cases gaps' rule: rev_cases) simp_all
      then have b: "length ?gaps = length (splitText r)" using st len by simp
      have "list_all (list_all isWhiteSpace) (butlast gaps')"
        using ws by (auto simp: list_all_iff dest: in_set_butlastD)
      moreover have "list_all isWhiteSpace (last gaps')"
        using ws last_in_set [OF ne] by (auto simp: list_all_iff)
      ultimately have c: "list_all (list_all isWhiteSpace) ?gaps"
        using wl wt by simp
      from a b c show ?thesis by blast
    qed
  qed
qed

lemma splitText_heads:
  "r = [] \<or> \<not> isWhiteSpace (hd r) \<Longrightarrow>
   \<forall>c \<in> set (splitText r). c \<noteq> [] \<and> \<not> isWhiteSpace (hd c)"
proof (induction "length r" arbitrary: r rule: less_induct)
  case less
  show ?case
  proof (cases "MAX_CHARS < length r")
    case False
    with less.prems show ?thesis by (auto simp: splitText_short)
  next
    case True
    let ?i = "chooseSplit r"
    let ?r' = "trim (substringFrom r ?i)"
    have i1: "1 \<le> ?i" by (rule chooseSplit_pos)
    then have i0: "0 \<le> ?i" by simp
    from True have ne: "r \<noteq> []" by auto
    with less.prems have h: "\<not> isWhiteSpace (hd r)" by simp
    have c: "substring r 0 ?i = take (nat ?i) r" by (rule substring_take [OF i0])
    have pos: "0 < nat ?i" using i1 by simp
    have "take (nat ?i) r \<noteq> []" using ne pos by simp
    moreover have "hd (take (nat ?i) r) = hd r" using pos by (simp add: hd_take)
    ultimately have first: "substring r 0 ?i \<noteq> [] \<and> \<not> isWhiteSpace (hd (substring r 0 ?i))"
      using h c by simp
    have shorter: "length ?r' < length r" using True by (rule length_remainder)
    have "?r' = [] \<or> \<not> isWhiteSpace (hd ?r')" using trim_hd [of "substringFrom r ?i"] by blast
    with less.hyps [OF shorter] have "\<forall>c \<in> set (splitText ?r'). c \<noteq> [] \<and> \<not> isWhiteSpace (hd c)" .
    with first show ?thesis using True by (simp add: splitText_long)
  qed
qed

lemma splitText_last:
  "r \<noteq> [] \<Longrightarrow> \<not> isWhiteSpace (last r) \<Longrightarrow> \<not> isWhiteSpace (last (last (splitText r)))"
proof (induction "length r" arbitrary: r rule: less_induct)
  case less
  show ?case
  proof (cases "MAX_CHARS < length r")
    case False
    with less.prems show ?thesis by (simp add: splitText_short)
  next
    case True
    let ?i = "chooseSplit r"
    let ?r' = "trim (substringFrom r ?i)"
    have i0: "0 \<le> ?i" using chooseSplit_pos [of r] by simp
    have st: "splitText r = substring r 0 ?i # splitText ?r'" using True by (rule splitText_long)
    have shorter: "length ?r' < length r" using True by (rule length_remainder)
    show ?thesis
    proof (cases "?r' = []")
      case False
      then have "\<not> isWhiteSpace (last ?r')" by (rule trim_last)
      with less.hyps [OF shorter False] have "\<not> isWhiteSpace (last (last (splitText ?r')))" .
      moreover have "splitText ?r' \<noteq> []" using False by (simp add: splitText_Nil_iff)
      ultimately show ?thesis using st by simp
    next
      case empty: True
      have "substringFrom r ?i = []"
      proof (rule ccontr)
        assume ne: "substringFrom r ?i \<noteq> []"
        then have "last (substringFrom r ?i) = last r"
          by (simp add: substringFrom_drop [OF i0])
        with less.prems(2) have "\<not> isWhiteSpace (last (substringFrom r ?i))" by simp
        with ne have "filter (\<lambda>c. \<not> isWhiteSpace c) (substringFrom r ?i) \<noteq> []"
          by (metis filter_empty_conv last_in_set)
        then have "filter (\<lambda>c. \<not> isWhiteSpace c) ?r' \<noteq> []" by (simp add: filter_trim)
        with empty show False by simp
      qed
      then have "substring r 0 ?i = r"
        by (simp add: substring_take [OF i0] substringFrom_drop [OF i0])
      with st empty less.prems(2) show ?thesis by (simp add: splitText_short)
    qed
  qed
qed

section \<open>Facts about the services\<close>

lemma fetchAudioChunk_eq:
  "fetchAudioChunk w voice calls chunk
     = (chunkResult w voice (length calls) chunk, calls @ [speechRequest w voice chunk])"
  by (simp add: fetchAudioChunk_def openaiRequestDefault_def openaiRequest_def chunkResult_def
      speechRequest_def andThen_def Let_def)

lemma processChunks_failure:
  assumes "i < length (filter (\<lambda>chunk. length (trim chunk) > 0) chunks)"
    and "\<forall>j < i. \<exists>part. chunkResult w voice (length calls + j)
                         (filter (\<lambda>chunk. length (trim chunk) > 0) chunks ! j) = Inr part"
    and "chunkResult w voice (length calls + i)
           (filter (\<lambda>chunk. length (trim chunk) > 0) chunks ! i) = Inl e"
  shows "processChunks w voice chunks audioParts calls
           = (Inl e, calls @ map (speechRequest w voice)
                               (take (Suc i) (filter (\<lambda>chunk. length (trim chunk) > 0) chunks)))"
  using assms
proof (induction chunks arbitrary: i audioParts calls)
  case Nil
  then show ?case by simp
next
  case (Cons chunk chunks)
  let ?d = "filter (\<lambda>chunk. length (trim chunk) > 0) chunks"
  show ?case
  proof (cases "length (trim chunk) > 0")
    case False
    with Cons.prems Cons.IH [of i calls audioParts] show ?thesis by simp
  next
    case True
    show ?thesis
    proof (cases i)
      case 0
      with True Cons.prems(3) show ?thesis
        by (simp add: fetchAudioChunk_eq)
    next
      case (Suc i')
      from Cons.prems(2) Suc True obtain part
        where part: "chunkResult w voice (length calls) chunk = Inr part"
        by fastforce
      have a: "i' < length ?d" using Cons.prems(1) Suc True by simp
      have b: "\<forall>j < i'. \<exists>part. chunkResult w voice (length (calls @ [speechRequest w voice chunk]) + j) (?d ! j) = Inr part"
      proof (intro allI impI)
        fix j assume "j < i'"
        then have "Suc j < i" using Suc by simp
        with Cons.prems(2) True show "\<exists>part. chunkResult w voice (length (calls @ [speechRequest w voice chunk]) + j) (?d ! j) = Inr part"
          by fastforce
      qed
      have c: "chunkResult w voice (length (calls @ [speechRequest w voice chunk]) + i') (?d ! i') = Inl e"
        using Cons.prems(3) Suc True by simp
      from Cons.IH [OF a b c, of "audioParts @ [part]"] True part Suc show ?thesis
        by (simp add: fetchAudioChunk_eq)
    qed
  qed
qed

declare decimal.simps [simp del]

lemma decimal_500: "decimal 500 = lit ''500''"
  by (simp add: decimal.simps [of 500] decimal.simps [of 50] decimal.simps [of 5] lit_def)

lemma trim_nonempty: "x \<in> set s \<Longrightarrow> \<not> isWhiteSpace x \<Longrightarrow> 0 < length (trim s)"
proof -
  assume "x \<in> set s" "\<not> isWhiteSpace x"
  then have "filter (\<lambda>c. \<not> isWhiteSpace c) s \<noteq> []"
    by (auto simp: filter_empty_conv)
  then have "filter (\<lambda>c. \<not> isWhiteSpace c) (trim s) \<noteq> []"
    by (simp add: filter_trim)
  then show ?thesis by auto
qed

lemma dispatched_textSentenceAtCeiling:
  "dispatched textSentenceAtCeiling = [replicate 4000 0x61 @ [0x2E], [0x62]]"
proof -
  have "0 < length (trim (replicate 4000 0x61 @ [0x2E]))"
    by (rule trim_nonempty [of "0x2E"]) (simp_all add: isWhiteSpace_def)
  moreover have "0 < length (trim [0x62])"
    by (rule trim_nonempty [of "0x62"]) (simp_all add: isWhiteSpace_def)
  ultimately show ?thesis
    by (simp add: dispatched_def splitText_textSentenceAtCeiling)
qed

lemma chunkResult_silentWorld: "chunkResult silentWorld voice k chunk = Inl timeoutError"
  by (simp add: chunkResult_def silentWorld_def openaiRequestOutcome_def openaiRequestTry_def
      fetch_def timerFiresFirst_def andThen_def openaiRequestCatch_def abortError_def)

lemma chunkResult_secondFailsWorld:
  "chunkResult secondFailsWorld voice 0 chunk = Inr [1, 2, 3]"
  "chunkResult secondFailsWorld voice (Suc 0) chunk = Inl (newError (lit ''OpenAI API error: 500''))"
  by (simp_all add: chunkResult_def secondFailsWorld_def openaiRequestOutcome_def openaiRequestTry_def
      fetch_def timerFiresFirst_def andThen_def openaiRequestCatch_def audioResponse_def
      failureResponse_def decimal_500 newError_def lit_def)

lemma copyParts_concat:
  "length zs = length (concat parts) \<Longrightarrow>
   copyParts parts (pre @ zs) (length pre) = Inr (pre @ concat parts)"
proof (induction parts arbitrary: pre zs)
  case Nil
  then show ?case by simp
next
  case (Cons part parts)
  have "setBytes (pre @ zs) (length pre) part = Inr ((pre @ part) @ drop (length part) zs)"
    using Cons.prems by (simp add: setBytes_def)
  moreover have "copyParts parts ((pre @ part) @ drop (length part) zs) (length (pre @ part))
                   = Inr ((pre @ part) @ concat parts)"
    using Cons.prems by (intro Cons.IH) simp
  ultimately show ?case by (simp add: andThen_def)
qed

lemma foldl_lengths: "foldl (\<lambda>acc part. acc + length part) n parts = n + length (concat parts)"
  by (induction parts arbitrary: n) simp_all

lemma concatenateParts_concat: "concatenateParts audioParts = Inr (concat audioParts)"
  using copyParts_concat [of "replicate (length (concat audioParts)) 0" audioParts "[]"]
  by (simp add: concatenateParts_def foldl_lengths)

lemma processChunks_success:
  assumes "length parts = length (filter (\<lambda>chunk. length (trim chunk) > 0) chunks)"
    and "\<forall>j < length parts. chunkResult w voice (length calls + j)
                         (filter (\<lambda>chunk. length (trim chunk) > 0) chunks ! j) = Inr (parts ! j)"
  shows "processChunks w voice chunks audioParts calls
           = (Inr (audioParts @ parts),
              calls @ map (speechRequest w voice) (filter (\<lambda>chunk. length (trim chunk) > 0) chunks))"
  using assms
proof (induction chunks arbitrary: parts audioParts calls)
  case Nil
  then show ?case by simp
next
  case (Cons chunk chunks)
  let ?d = "filter (\<lambda>chunk. length (trim chunk) > 0) chunks"
  show ?case
  proof (cases "length (trim chunk) > 0")
    case False
    with Cons.prems Cons.IH [of parts calls audioParts] show ?thesis by simp
  next
    case True
    with Cons.prems(1) obtain part rest where parts: "parts = part # rest"
      by (cases parts) auto
    have first: "chunkResult w voice (length calls) chunk = Inr part"
      using Cons.prems(2) True parts by fastforce
    have a: "length rest = length ?d" using Cons.prems(1) True parts by simp
    have b: "\<forall>j < length rest. chunkResult w voice (length (calls @ [speechRequest w voice chunk]) + j) (?d ! j) = Inr (rest ! j)"
    proof (intro allI impI)
      fix j assume "j < length rest"
      then have "Suc j < length parts" using parts by simp
      with Cons.prems(2) True parts
      show "chunkResult w voice (length (calls @ [speechRequest w voice chunk]) + j) (?d ! j) = Inr (rest ! j)"
        by fastforce
    qed
    from Cons.IH [OF a b, of "audioParts @ [part]"] True first parts show ?thesis
      by (simp add: fetchAudioChunk_eq)
  qed
qed

lemma generateSpeechFromText_success:
  assumes "text \<noteq> []" "length parts = length (dispatched text)"
    and "\<forall>j < length parts. chunkResult w voice j (dispatched text ! j) = Inr (parts ! j)"
  shows "generateSpeechFromText w text voice
           = (Inr \<lparr>blobBytes = concat parts, blobType = lit ''audio/mpeg''\<rparr>,
              map (speechRequest w voice) (dispatched text))"
proof -
  have "processChunks w voice (splitText text) [] []
          = (Inr ([] @ parts), [] @ map (speechRequest w voice) (dispatched text))"
    unfolding dispatched_def
    using assms(2,3) by (intro processChunks_success) (simp_all add: dispatched_def)
  with assms(1) show ?thesis
    by (simp add: generateSpeechFromText_def concatenateParts_concat)
qed

lemma dispatched_short:
  "text \<noteq> [] \<Longrightarrow> length text \<le> MAX_CHARS \<Longrightarrow>
   dispatched text = (if 0 < length (trim text) then [text] else [])"
  by (simp add: dispatched_def splitText_def splitLoop_short)

lemma chunkResult_quickWorld:
  "chunkResult (quickWorld (audioResponse bs)) voice k chunk = Inr bs"
  by (simp add: chunkResult_def quickWorld_def openaiRequestOutcome_def openaiRequestTry_def
      fetch_def timerFiresFirst_def andThen_def audioResponse_def)

lemma generateSpeechFromText_Hi:
  "generateSpeechFromText (quickWorld (audioResponse [1, 2, 3])) (lit ''Hi'') (lit ''nova'')
     = (Inr \<lparr>blobBytes = [1, 2, 3], blobType = lit ''audio/mpeg''\<rparr>,
        [speechRequest (quickWorld (audioResponse [1, 2, 3])) (lit ''nova'') (lit ''Hi'')])"
proof -
  have d: "dispatched (lit ''Hi'') = [lit ''Hi'']"
    by (simp add: dispatched_short MAX_CHARS_def lit_def trim_def isWhiteSpace_def)
  show ?thesis
    using generateSpeechFromText_success [of "lit ''Hi''" "[[1, 2, 3]]" "quickWorld (audioResponse [1, 2, 3])" "lit ''nova''"]
    by (simp add: d chunkResult_quickWorld) (simp add: lit_def)
qed

lemma generateSpeechFromText_blank:
  "generateSpeechFromText w (lit ''  '') voice
     = (Inr \<lparr>blobBytes = [], blobType = lit ''audio/mpeg''\<rparr>, [])"
proof -
  have d: "dispatched (lit ''  '') = []"
    by (simp add: dispatched_short MAX_CHARS_def lit_def trim_def isWhiteSpace_def)
  show ?thesis
    using generateSpeechFromText_success [of "lit ''  ''" "[]" w voice]
    by (simp add: d) (simp add: lit_def)
qed

lemma chatResult_quickWorld:
  "chatResult (quickWorld (chatResponse reply)) chat message = Inr (Some reply)"
  by (simp add: chatResult_def quickWorld_def openaiRequestOutcome_def openaiRequestTry_def
      fetch_def timerFiresFirst_def andThen_def chatResponse_def)

lemma chatResult_silentWorld: "chatResult silentWorld chat message = Inl timeoutError"
  by (simp add: chatResult_def silentWorld_def openaiRequestOutcome_def openaiRequestTry_def
      fetch_def timerFiresFirst_def andThen_def openaiRequestCatch_def abortError_def)

lemma openaiRequestOutcome_timeout:
  "timerFiresFirst timeoutMs outcome \<Longrightarrow> openaiRequestOutcome outcome timeoutMs = Inl timeoutError"
  by (simp add: openaiRequestOutcome_def openaiRequestTry_def fetch_def openaiRequestCatch_def
      abortError_def)

lemma numeric_status_message: "newError (lit ''OpenAI API error: '' @ n) \<noteq> timeoutError"
  by (simp add: newError_def timeoutError_def lit_def)

lemma openaiRequestOutcome_failure:
  assumes "settlesWithFailure timeoutMs outcome" "\<not> carriesTimeoutText outcome"
  shows "\<exists>error. openaiRequestOutcome outcome timeoutMs = Inl error \<and> error \<noteq> timeoutError"
proof (cases outcome)
  case (Resolves t response)
  show ?thesis
  proof (cases "errorData response")
    case (NullBody typeError)
    with Resolves assms show ?thesis
      by (simp add: settlesWithFailure_def carriesTimeoutText_def openaiRequestOutcome_def
          openaiRequestTry_def fetch_def openaiRequestCatch_def)
  next
    case (ErrorMessage m)
    with Resolves assms show ?thesis
      by (cases m)
         (auto simp: settlesWithFailure_def carriesTimeoutText_def openaiRequestOutcome_def
            openaiRequestTry_def fetch_def openaiRequestCatch_def numeric_status_message
            newError_def timeoutError_def lit_def)
  qed
next
  case (Rejects t error)
  with assms show ?thesis
    by (simp add: settlesWithFailure_def carriesTimeoutText_def openaiRequestOutcome_def
        openaiRequestTry_def fetch_def openaiRequestCatch_def)
next
  case NeverSettles
  with assms show ?thesis by (simp add: settlesWithFailure_def timerFiresFirst_def)
qed

lemma fst_openaiRequest:
  "fst (openaiRequest w calls endpoint payload isFormData timeoutMs)
     = openaiRequestOutcome (network w (length calls) (buildRequest w endpoint payload isFormData)) timeoutMs"
  by (simp add: openaiRequest_def Let_def)

lemma openaiRequestOutcome_samples:
  "openaiRequestOutcome (Resolves 120 (failureResponse 500 (Some (lit ''Request timed out. Check your connection.'')))) 30000
     = Inl timeoutError"
  "openaiRequestOutcome (Resolves 120 (failureResponse 500 None)) 30000
     = Inl (newError (lit ''OpenAI API error: 500''))"
  by (simp_all add: timerFiresFirst_def failureResponse_def openaiRequestOutcome_def
      openaiRequestTry_def fetch_def openaiRequestCatch_def decimal_500 timeoutError_def newError_def lit_def)

lemma unat_digit: "k < 10 \<Longrightarrow> unat (0x30 + of_nat k :: codeUnit) = 48 + k"
  by (simp add: unat_word_ariths unat_of_nat)

lemma digitsValue_snoc: "digitsValue (s @ [d]) = 10 * digitsValue s + (unat d - 48)"
  by (simp add: digitsValue_def)

lemma digitsValue_decimal: "digitsValue (decimal n) = n"
proof (induction n rule: decimal.induct)
  case (1 n)
  show ?case
  proof (cases "n < 10")
    case True
    then show ?thesis
      by (subst decimal.simps) (simp add: digitsValue_def unat_digit)
  next
    case False
    have "n mod 10 < 10" by simp
    then have "unat (0x30 + of_nat (n mod 10) :: codeUnit) = 48 + n mod 10"
      by (rule unat_digit)
    with False "1.IH" show ?thesis
      by (subst decimal.simps) (simp add: digitsValue_snoc)
  qed
qed

lemma openaiRequestOutcome_rejected:
  "t < timeoutMs \<Longrightarrow> errName e \<noteq> lit ''AbortError'' \<Longrightarrow>
   openaiRequestOutcome (Rejects t e) timeoutMs = Inl e"
  by (simp add: openaiRequestOutcome_def openaiRequestTry_def fetch_def timerFiresFirst_def
      openaiRequestCatch_def)

lemma openaiRequestOutcome_service_message:
  "t < timeoutMs \<Longrightarrow> \<not> ok r \<Longrightarrow> errorData r = ErrorMessage (Some m) \<Longrightarrow> m \<noteq> [] \<Longrightarrow>
   openaiRequestOutcome (Resolves t r) timeoutMs = Inl (newError m)"
  by (simp add: openaiRequestOutcome_def openaiRequestTry_def fetch_def timerFiresFirst_def
      openaiRequestCatch_def newError_def lit_def)

lemma openaiRequestOutcome_numeric_status:
  "t < timeoutMs \<Longrightarrow> \<not> ok r \<Longrightarrow> errorData r = ErrorMessage m \<Longrightarrow> m = None \<or> m = Some [] \<Longrightarrow>
   openaiRequestOutcome (Resolves t r) timeoutMs
     = Inl (newError (lit ''OpenAI API error: '' @ decimal (status r)))"
  by (auto simp: openaiRequestOutcome_def openaiRequestTry_def fetch_def timerFiresFirst_def
      openaiRequestCatch_def newError_def lit_def)

lemma openaiRequestOutcome_tie:
  "openaiRequestOutcome (Resolves timeoutMs r) timeoutMs = Inl timeoutError"
  "openaiRequestOutcome (Rejects timeoutMs e) timeoutMs = Inl timeoutError"
  by (simp_all add: openaiRequestOutcome_timeout timerFiresFirst_def)

section \<open>Facts about the WAV container\<close>

lemma length_uintBytes [simp]: "length (uintBytes k n) = k"
  by (induction k arbitrary: n) simp_all

lemma uintBytes_numerals:
  "uintBytes 1 n = [of_nat n]"
  "uintBytes 2 n = [of_nat n, of_nat (n div 256)]"
  "uintBytes 4 n = [of_nat n, of_nat (n div 256), of_nat (n div 256 div 256), of_nat (n div 256 div 256 div 256)]"
proof -
  have one: "(1::nat) = Suc 0" and two: "(2::nat) = Suc (Suc 0)"
    and four: "(4::nat) = Suc (Suc (Suc (Suc 0)))" by simp_all
  show "uintBytes 1 n = [of_nat n]" by (simp only: one uintBytes.simps)
  show "uintBytes 2 n = [of_nat n, of_nat (n div 256)]" by (simp only: two uintBytes.simps)
  show "uintBytes 4 n = [of_nat n, of_nat (n div 256), of_nat (n div 256 div 256), of_nat (n div 256 div 256 div 256)]"
    by (simp only: four uintBytes.simps)
qed

lemma unat_byte_of_nat: "unat (of_nat n :: byte) = n mod 256"
  by (simp add: unat_of_nat)

lemma uintOf_uintBytes: "uintOf (uintBytes k n) = n mod 256 ^ k"
proof (induction k arbitrary: n)
  case 0
  show ?case by simp
next
  case (Suc k)
  have "n mod (256 * 256 ^ k) = 256 * (n div 256 mod 256 ^ k) + n mod 256"
    by (rule mod_mult2_eq)
  with Suc show ?case by (simp add: unat_byte_of_nat)
qed

lemma replicate_numeral_Cons: "replicate (numeral k) x = x # replicate (pred_numeral k) x"
  by (simp add: numeral_eq_Suc)

lemma writeHeader_closed:
  "writeHeader (replicate 44 0 @ rest) 1 sampleRate (sampleRate * 2) 2 16 (n * 2)
     = Inr (wavHeader n sampleRate @ rest)"
  unfolding writeHeader_def wavHeader_def
  by (simp add: replicate_numeral_Cons setUint32_def setUint16_def setUint8_def setBytes_def
      andThen_def byteOrder_def uintBytes_numerals lit_def)

lemma length_wavHeader [simp]: "length (wavHeader n sampleRate) = 44"
  by (simp add: wavHeader_def)

lemma length_pcmBytes [simp]: "length (pcmBytes x) = 2"
  by (simp add: pcmBytes_def Let_def)

lemma writeSamples_closed:
  "length pre = offset \<Longrightarrow> length old = 2 * length xs \<Longrightarrow>
   writeSamples (pre @ old) offset xs = Inr (pre @ concat (map pcmBytes xs))"
proof (induction xs arbitrary: pre old offset)
  case Nil
  then show ?case by simp
next
  case (Cons x xs)
  from Cons.prems(2) obtain a b old' where old: "old = a # b # old'" and len: "length old' = 2 * length xs"
    by (cases old; cases "tl old") auto
  have step: "setBytes (pre @ old) offset (pcmBytes x) = Inr ((pre @ pcmBytes x) @ old')"
    using Cons.prems(1) old by (simp add: setBytes_def)
  have rest: "writeSamples ((pre @ pcmBytes x) @ old') (offset + 2) xs
                = Inr ((pre @ pcmBytes x) @ concat (map pcmBytes xs))"
    using Cons.prems(1) len by (intro Cons.IH) simp_all
  have "writeSamples (pre @ old) offset (x # xs)
          = andThen (setBytes (pre @ old) offset (pcmBytes x))
              (\<lambda>view. writeSamples view (offset + 2) xs)"
    by (simp add: setInt16_def byteOrder_def pcmBytes_def Let_def)
  with step rest show ?case by (simp add: andThen_def)
qed

lemma float32ArrayToWav_closed:
  "float32ArrayToWav audioData sampleRate
     = Inr \<lparr>blobBytes = wavHeader (length audioData) sampleRate @ concat (map pcmBytes audioData),
            blobType = lit ''audio/wav''\<rparr>"
proof -
  let ?n = "length audioData"
  have view: "replicate (44 + ?n * 2) (0 :: byte) = replicate 44 0 @ replicate (?n * 2) 0"
    by (simp only: replicate_add)
  have hdr: "writeHeader (replicate (44 + ?n * 2) 0) 1 sampleRate (sampleRate * 2) 2 16 (?n * 2)
          = Inr (wavHeader ?n sampleRate @ replicate (?n * 2) 0)"
    unfolding view by (rule writeHeader_closed)
  have smp: "writeSamples (wavHeader ?n sampleRate @ replicate (?n * 2) 0) 44 audioData
               = Inr (wavHeader ?n sampleRate @ concat (map pcmBytes audioData))"
    by (rule writeSamples_closed) simp_all
  have bps: "(16::nat) div 8 = 2" by simp
  show ?thesis
    unfolding float32ArrayToWav_def Let_def bps
    by (simp add: hdr [unfolded One_nat_def] smp andThen_def)
qed

lemma wavHeader_fields:
  "take 4 (drop 4 (wavHeader n r)) = uintBytes 4 ((36 + n * 2) mod 2 ^ 32)"
  "take 4 (drop 40 (wavHeader n r)) = uintBytes 4 (n * 2 mod 2 ^ 32)"
  "take 2 (drop 20 (wavHeader n r)) = uintBytes 2 1"
  "take 2 (drop 22 (wavHeader n r)) = uintBytes 2 1"
  "take 4 (drop 24 (wavHeader n r)) = uintBytes 4 (r mod 2 ^ 32)"
  "take 2 (drop 34 (wavHeader n r)) = uintBytes 2 16"
  by (simp_all add: wavHeader_def uintBytes_numerals)

lemma getBytes_header:
  "offset + k \<le> 44 \<Longrightarrow>
   getBytes (wavHeader n r @ payload) offset k = Inr (take k (drop offset (wavHeader n r)))"
  by (simp add: getBytes_def)

lemma getUint32_header:
  "offset + 4 \<le> 44 \<Longrightarrow> take 4 (drop offset (wavHeader n r)) = uintBytes 4 v \<Longrightarrow> v < 2 ^ 32 \<Longrightarrow>
   getUint32 (wavHeader n r @ payload) offset True = Inr v"
  by (simp add: getUint32_def getBytes_header andThen_def byteOrder_def uintOf_uintBytes)

lemma getUint16_header:
  "offset + 2 \<le> 44 \<Longrightarrow> take 2 (drop offset (wavHeader n r)) = uintBytes 2 v \<Longrightarrow> v < 2 ^ 16 \<Longrightarrow>
   getUint16 (wavHeader n r @ payload) offset True = Inr v"
  by (simp add: getUint16_def getBytes_header andThen_def byteOrder_def uintOf_uintBytes)

lemma floor_half_scale: "\<lfloor>(32767::rat) / 2\<rfloor> = 16383"
proof -
  have "(16383::rat) \<le> 32767 / 2" "(32767::rat) / 2 < 16383 + 1" by simp_all
  then show ?thesis by (simp add: floor_eq_iff)
qed

lemma pcmBytes_samples:
  "pcmBytes (Num (1 / 2)) = [0xFF, 0x3F]" "pcmBytes (Num (- 1)) = [0x00, 0x80]" "pcmBytes NaN = [0, 0]"
  "pcmBytes (Num 3) = [0xFF, 0x7F]"
  by (simp_all add: pcmBytes_def jsTruncate_def uintBytes_numerals Let_def floor_half_scale)

lemma take_drop_concat_pairs:
  "(\<And>x. length (f x) = 2) \<Longrightarrow> i < length xs \<Longrightarrow>
   take 2 (drop (2 * i) (concat (map f xs))) = f (xs ! i)"
proof (induction xs arbitrary: i)
  case Nil
  then show ?case by simp
next
  case (Cons x xs)
  show ?case
  proof (cases i)
    case 0
    with Cons.prems(1) [of x] show ?thesis by simp
  next
    case (Suc i')
    with Cons.prems have "take 2 (drop (2 * i') (concat (map f xs))) = f (xs ! i')"
      by (intro Cons.IH) simp_all
    with Suc Cons.prems(1) [of x] show ?thesis by simp
  qed
qed

lemma getBytes_sample:
  assumes "i < length audioData"
  shows "getBytes (wavHeader n r @ concat (map pcmBytes audioData)) (44 + 2 * i) 2
           = Inr (pcmBytes (audioData ! i))"
proof -
  have len: "length (concat (map pcmBytes audioData)) = 2 * length audioData"
    by (induction audioData) simp_all
  have "take 2 (drop (2 * i) (concat (map pcmBytes audioData))) = pcmBytes (audioData ! i)"
    using assms by (intro take_drop_concat_pairs) simp_all
  with assms len show ?thesis by (simp add: getBytes_def)
qed

lemma mod_65536_cases:
  "- 32768 \<le> t \<Longrightarrow> t \<le> 32767 \<Longrightarrow> (t :: int) mod 65536 = (if t < 0 then t + 65536 else t)"
proof -
  assume lo: "- 32768 \<le> t" and hi: "t \<le> 32767"
  show ?thesis
  proof (cases "t < 0")
    case True
    have "t mod 65536 = (t + 65536) mod 65536" by simp
    also have "\<dots> = t + 65536" using lo True by (intro mod_pos_pos_trivial) simp_all
    finally show ?thesis using True by simp
  next
    case False
    then have "t mod 65536 = t" using hi by (intro mod_pos_pos_trivial) simp_all
    with False show ?thesis by simp
  qed
qed

lemma wrap_in_range:
  "- 32768 \<le> t \<Longrightarrow> t \<le> 32767 \<Longrightarrow>
   (if (t :: int) mod 65536 \<ge> 32768 then t mod 65536 - 65536 else t mod 65536) = t"
  by (simp add: mod_65536_cases)

lemma wrap_range:
  "- 32768 \<le> (if (t :: int) mod 65536 \<ge> 32768 then t mod 65536 - 65536 else t mod 65536)
   \<and> (if t mod 65536 \<ge> 32768 then t mod 65536 - 65536 else t mod 65536) \<le> 32767"
proof -
  have "0 \<le> t mod 65536" "t mod 65536 < 65536" by simp_all
  then show ?thesis by auto
qed

lemma toInt16_range: "- 32768 \<le> toInt16 v \<and> toInt16 v \<le> 32767"
proof (cases v)
  case (Num q)
  then show ?thesis using wrap_range [of "jsTruncate q"] by (simp add: Let_def)
qed simp_all

lemma signed_roundtrip:
  "- 32768 \<le> t \<Longrightarrow> t \<le> 32767 \<Longrightarrow>
   (if int (nat (t mod 65536)) \<ge> 32768 then int (nat (t mod 65536)) - 65536 else int (nat (t mod 65536))) = (t :: int)"
proof -
  assume r: "- 32768 \<le> t" "t \<le> 32767"
  have "0 \<le> t mod 65536" by simp
  then have "int (nat (t mod 65536)) = t mod 65536" by simp
  then show ?thesis using wrap_in_range [OF r] by (simp only:)
qed

lemma getInt16_sample:
  assumes "i < length audioData"
  shows "getInt16 (wavHeader n r @ concat (map pcmBytes audioData)) (44 + 2 * i) True
           = Inr (toInt16 (let sample = mathMax (Num (- 1)) (mathMin (Num 1) (audioData ! i))
                           in if jsLess sample (Num 0) then jsTimes sample 32768 else jsTimes sample 32767))"
proof -
  define v where "v = (let sample = mathMax (Num (- 1)) (mathMin (Num 1) (audioData ! i))
            in if jsLess sample (Num 0) then jsTimes sample 32768 else jsTimes sample 32767)"
  have u: "uintOf (pcmBytes (audioData ! i)) = nat (toInt16 v mod 65536)"
    by (simp add: pcmBytes_def uintOf_uintBytes v_def Let_def nat_mod_distrib)
  have r: "- 32768 \<le> toInt16 v" "toInt16 v \<le> 32767"
    using toInt16_range [of v] by simp_all
  have "getInt16 (wavHeader n r @ concat (map pcmBytes audioData)) (44 + 2 * i) True
          = Inr (if int (nat (toInt16 v mod 65536)) \<ge> 32768
                 then int (nat (toInt16 v mod 65536)) - 65536 else int (nat (toInt16 v mod 65536)))"
    unfolding getInt16_def getBytes_sample [OF assms]
    by (simp only: andThen_def sum.case byteOrder_def if_True u Let_def)
  also have "\<dots> = Inr (toInt16 v)"
    by (simp only: signed_roundtrip [OF r])
  finally show ?thesis by (simp only: v_def)
qed

lemma jsTruncate_bounds:
  "- 32768 \<le> v \<Longrightarrow> v \<le> 32767 \<Longrightarrow> - 32768 \<le> jsTruncate v \<and> jsTruncate v \<le> 32767"
proof -
  assume lo: "- 32768 \<le> v" and hi: "v \<le> 32767"
  show ?thesis
  proof (cases "v < 0")
    case True
    then have "0 \<le> \<lfloor>- v\<rfloor>" by simp
    moreover have "\<lfloor>- v\<rfloor> \<le> 32768"
      using lo by (simp add: floor_le_iff)
    moreover have "jsTruncate v = - \<lfloor>- v\<rfloor>" using True by (simp add: jsTruncate_def)
    ultimately show ?thesis by linarith
  next
    case False
    then have "0 \<le> \<lfloor>v\<rfloor>" by simp
    moreover have "\<lfloor>v\<rfloor> \<le> 32767"
      using hi by (simp add: floor_le_iff)
    moreover have "jsTruncate v = \<lfloor>v\<rfloor>" using False by (simp add: jsTruncate_def)
    ultimately show ?thesis by linarith
  qed
qed

lemma toInt16_in_range:
  "- 32768 \<le> v \<Longrightarrow> v \<le> 32767 \<Longrightarrow> toInt16 (Num v) = jsTruncate v"
  using jsTruncate_bounds [of v] wrap_in_range [of "jsTruncate v"] by (simp add: Let_def)

lemma scale_bounds:
  assumes "- 1 \<le> c" "c \<le> (1 :: rat)"
  shows "- 32768 \<le> (if c < 0 then c * 32768 else c * 32767)"
    and "(if c < 0 then c * 32768 else c * 32767) \<le> 32767"
proof -
  show "- 32768 \<le> (if c < 0 then c * 32768 else c * 32767)"
  proof (cases "c < 0")
    case True
    with assms show ?thesis by simp
  next
    case False
    then have "0 \<le> c * 32767" by simp
    with False show ?thesis by simp
  qed
  show "(if c < 0 then c * 32768 else c * 32767) \<le> 32767"
  proof (cases "c < 0")
    case True
    then have "c * 32768 \<le> 0" by simp
    with True show ?thesis by simp
  next
    case False
    with assms show ?thesis by simp
  qed
qed

lemma intSample_clamped:
  assumes "clampToUnit x = Some c"
  shows "- 1 \<le> c \<and> c \<le> 1
         \<and> toInt16 (let sample = mathMax (Num (- 1)) (mathMin (Num 1) x)
                     in if jsLess sample (Num 0) then jsTimes sample 32768 else jsTimes sample 32767)
             = scaleToInt16 c"
proof (cases x)
  case (Num q)
  with assms have c: "max (- 1) (min 1 q) = c" by simp
  then have b: "- 1 \<le> c" "c \<le> 1" by auto
  have s: "mathMax (Num (- 1)) (mathMin (Num 1) x) = Num c"
    using Num c by simp
  have v: "(let sample = mathMax (Num (- 1)) (mathMin (Num 1) x)
            in if jsLess sample (Num 0) then jsTimes sample 32768 else jsTimes sample 32767)
           = Num (if c < 0 then c * 32768 else c * 32767)"
    unfolding Let_def s by simp
  have "toInt16 (Num (if c < 0 then c * 32768 else c * 32767)) = scaleToInt16 c"
    unfolding scaleToInt16_def
    by (rule toInt16_in_range) (rule scale_bounds [OF b])+
  with b show ?thesis by (simp only: v simp_thms)
next
  case PosInfinity
  with assms have "c = 1" by simp
  with PosInfinity show ?thesis by (simp add: Let_def scaleToInt16_def jsTruncate_def)
next
  case NegInfinity
  with assms have "c = - 1" by simp
  with NegInfinity show ?thesis by (simp add: Let_def scaleToInt16_def jsTruncate_def)
next
  case NaN
  with assms show ?thesis by simp
qed

lemma float32ArrayToWav_fourSamples:
  "float32ArrayToWav fourSamples 16000 = Inr \<lparr>blobBytes = fourSamplesWav, blobType = lit ''audio/wav''\<rparr>"
  by (simp add: float32ArrayToWav_closed wavHeader_def uintBytes_numerals pcmBytes_samples
      fourSamples_def fourSamplesWav_def)

lemma scaleToInt16_samples:
  "scaleToInt16 (1 / 2) = 16383" "scaleToInt16 (- 1) = - 32768" "scaleToInt16 1 = 32767"
  by (simp_all add: scaleToInt16_def jsTruncate_def floor_half_scale)

section \<open>The claims about text splitting\<close>

text \<open>
  Claim C1: every chunk produced by the splitting loop has length at most the ceiling of
  4000 characters.  The code misses this by one: \<open>lastIndexOf\<close> may find a separator
  that starts exactly at offset \<open>MAX_CHARS\<close>, and the split index is one past it.  For
  4000 letters followed by a period, a space and a letter, the first chunk has 4001
  code units.
\<close>

theorem C1_chunk_exceeds_ceiling:
  "splitText textSentenceAtCeiling = [replicate 4000 0x61 @ [0x2E], [0x62]]
   \<and> length (hd (splitText textSentenceAtCeiling)) = 4001
   \<and> MAX_CHARS < length (hd (splitText textSentenceAtCeiling))"
  by (simp add: splitText_textSentenceAtCeiling MAX_CHARS_def)

text \<open>
  Claim C2, as stated, fails: a separator inside the window does not prevent a hard cut
  when a separator of higher priority occurs only before the 10 percent offset.  In
  \<open>textEarlySentence\<close> a space stands at offset 502, yet the period and space at offset 0
  is the only occurrence searched for, it is too early, and the text is cut at offset
  4000 between two letters.
\<close>

theorem C2_counterexample:
  "MAX_CHARS < length textEarlySentence
   \<and> boundaryInWindow textEarlySentence
   \<and> matchesAt textEarlySentence (lit '' '') 502
   \<and> chooseSplit textEarlySentence = int MAX_CHARS
   \<and> textEarlySentence ! 3999 = 0x61 \<and> textEarlySentence ! 4000 = 0x61
   \<and> \<not> splitsAtBoundary textEarlySentence"
  by (simp add: length_textEarlySentence boundaryInWindow_textEarlySentence textEarlySentence_space
      chooseSplit_textEarlySentence textEarlySentence_letters not_splitsAtBoundary_textEarlySentence
      MAX_CHARS_def)

text \<open>
  Claim C2, amended: in an iteration that splits, let \<open>tok\<close> be the separator of highest
  priority that occurs at an offset no later than the ceiling (no separator before it in
  the order occurs there), and let \<open>k\<close> be its last such offset.  If \<open>k\<close> is no earlier
  than 10 percent of the ceiling, the split index is \<open>k + 1\<close>: the chunk ends with the
  first code unit of that separator, the split is at a boundary and not a hard cut.
\<close>

theorem C2_split_at_highest_priority_boundary:
  assumes long: "MAX_CHARS < length r"
    and order: "boundaryTokens = before @ tok # after"
    and absent: "\<forall>t \<in> set before. \<forall>j \<le> MAX_CHARS. \<not> matchesAt r t j"
    and occurs: "matchesAt r tok k" "k \<le> MAX_CHARS"
    and last: "\<forall>j. k < j \<and> j \<le> MAX_CHARS \<longrightarrow> \<not> matchesAt r tok j"
    and window: "400 \<le> k"
  shows "chooseSplit r = int k + 1
         \<and> splitsAtBoundary r
         \<and> splitLoop r chunks = splitLoop (trim (drop (Suc k) r)) (chunks @ [take (Suc k) r])"
proof -
  have "lastIndexOf r t MAX_CHARS = - 1" if "t \<in> set before" for t
    using absent that by (intro lastIndexOf_none) simp
  moreover have "lastIndexOf r tok MAX_CHARS = int k"
    using occurs last by (intro lastIndexOf_last) auto
  ultimately have "findSplit r = int k"
    unfolding findSplit_firstFound order by (rule firstFound_priority)
  then have cs: "chooseSplit r = int k + 1"
    using window by (simp add: chooseSplit_def MAX_CHARS_def)
  have "tok \<in> set boundaryTokens" by (simp add: order)
  then have "splitsAtBoundary r"
    unfolding splitsAtBoundary_def list_ex_iff using occurs(1) cs by auto
  moreover have "splitLoop r chunks = splitLoop (trim (drop (Suc k) r)) (chunks @ [take (Suc k) r])"
    using long by (simp add: splitLoop_long cs substring_take substringFrom_drop nat_add_distrib)
  ultimately show ?thesis using cs by simp
qed

text \<open>An instance: a question mark and space at offset 3000 of 5002 code units, no
  period anywhere.\<close>

theorem C2_split_at_highest_priority_boundary_witness:
  "MAX_CHARS < length textMidSentence
   \<and> matchesAt textMidSentence (lit ''? '') 3000
   \<and> chooseSplit textMidSentence = 3001
   \<and> splitsAtBoundary textMidSentence
   \<and> splitText textMidSentence = [replicate 3000 0x61 @ [0x3F], replicate 2000 0x62]"
proof -
  have long: "MAX_CHARS < length textMidSentence"
    by (simp add: length_textMidSentence MAX_CHARS_def)
  have order: "boundaryTokens = [lit ''. ''] @ lit ''? '' # [lit ''! '', newline, lit '', '', lit '' '']"
    by (simp add: boundaryTokens_def)
  have absent: "\<forall>t \<in> set [lit ''. '']. \<forall>j \<le> MAX_CHARS. \<not> matchesAt textMidSentence t j"
    by (simp add: textMidSentence_no_period)
  have last: "\<forall>j. 3000 < j \<and> j \<le> MAX_CHARS \<longrightarrow> \<not> matchesAt textMidSentence (lit ''? '') j"
    by (simp add: textMidSentence_last_question)
  have le: "(3000::nat) \<le> MAX_CHARS" by (simp add: MAX_CHARS_def)
  have win: "(400::nat) \<le> 3000" by simp
  note step = C2_split_at_highest_priority_boundary
    [OF long order absent textMidSentence_question le last win, of "[]"]
  have "take (Suc 3000) textMidSentence = replicate 3000 0x61 @ [0x3F]"
    by (simp add: textMidSentence_def lit_tokens)
  moreover have "trim (drop (Suc 3000) textMidSentence) = replicate 2000 0x62"
    by (simp add: textMidSentence_def lit_tokens trim_textMidSentence_rest)
  ultimately have "splitText textMidSentence = [replicate 3000 0x61 @ [0x3F], replicate 2000 0x62]"
    using step by (simp add: splitText_def splitLoop_short MAX_CHARS_def)
  with step long textMidSentence_question show ?thesis by simp
qed

text \<open>
  Claim C3: the concatenation of the chunks, in order, contains exactly the code units of
  the text that are not white space, in their original order, and it is the text with
  some code units left out.  What is left out is white space at the chunk boundaries and
  nowhere else: the text is the chunks, in order, each followed by a gap of white space
  only (the last gap is the white space at the end of the text), so every chunk is a
  piece of the text as it stands.  The trimming is complete: every chunk after the first
  is non-empty and begins with a code unit that is not white space, and when there are
  two chunks or more the last one does not end with white space.
\<close>

theorem C3_chunks_keep_non_whitespace:
  "filter (\<lambda>c. \<not> isWhiteSpace c) (concat (splitText text)) = filter (\<lambda>c. \<not> isWhiteSpace c) text
   \<and> subseq (concat (splitText text)) text
   \<and> (\<exists>gaps. length gaps = length (splitText text) \<and> interleave (splitText text) gaps = text
              \<and> list_all (list_all isWhiteSpace) gaps)
   \<and> (\<forall>chunk \<in> set (tl (splitText text)). chunk \<noteq> [] \<and> \<not> isWhiteSpace (hd chunk))
   \<and> (2 \<le> length (splitText text) \<longrightarrow> \<not> isWhiteSpace (last (last (splitText text))))"
proof (intro conjI impI)
  show "filter (\<lambda>c. \<not> isWhiteSpace c) (concat (splitText text)) = filter (\<lambda>c. \<not> isWhiteSpace c) text"
    using splitLoop_nonws [of "text" "[]"] by (simp add: splitText_def)
  show "subseq (concat (splitText text)) text"
    using splitLoop_subseq [of "text" "[]"] by (simp add: splitText_def)
  show "\<exists>gaps. length gaps = length (splitText text) \<and> interleave (splitText text) gaps = text
              \<and> list_all (list_all isWhiteSpace) gaps"
    by (rule splitText_gaps)
  let ?r' = "trim (substringFrom text (chooseSplit text))"
  have rest: "tl (splitText text) = (if MAX_CHARS < length text then splitText ?r' else [])"
    by (simp add: splitText_long splitText_short)
  have "?r' = [] \<or> \<not> isWhiteSpace (hd ?r')"
    using trim_hd [of "substringFrom text (chooseSplit text)"] by blast
  then have "\<forall>c \<in> set (splitText ?r'). c \<noteq> [] \<and> \<not> isWhiteSpace (hd c)"
    by (rule splitText_heads)
  then show "\<forall>chunk \<in> set (tl (splitText text)). chunk \<noteq> [] \<and> \<not> isWhiteSpace (hd chunk)"
    by (simp add: rest)
  assume two: "2 \<le> length (splitText text)"
  then have long: "MAX_CHARS < length text"
    by (cases "MAX_CHARS < length text") (simp_all add: splitText_short split: if_splits)
  then have st: "splitText text = substring text 0 (chooseSplit text) # splitText ?r'"
    by (rule splitText_long)
  with two have ne: "splitText ?r' \<noteq> []" by auto
  then have r': "?r' \<noteq> []" by (simp add: splitText_Nil_iff)
  then have "\<not> isWhiteSpace (last ?r')" by (rule trim_last)
  with r' have "\<not> isWhiteSpace (last (last (splitText ?r')))" by (rule splitText_last)
  with st ne show "\<not> isWhiteSpace (last (last (splitText text)))" by simp
qed

text \<open>An instance: the text of 4003 code units that is split after the period;
  the gap after the first chunk is the space that is trimmed.\<close>

theorem C3_chunks_keep_non_whitespace_witness:
  "splitText textSentenceAtCeiling = [replicate 4000 0x61 @ [0x2E], [0x62]]
   \<and> filter (\<lambda>c. \<not> isWhiteSpace c) (concat (splitText textSentenceAtCeiling))
     = replicate 4000 0x61 @ [0x2E, 0x62]
   \<and> filter (\<lambda>c. \<not> isWhiteSpace c) textSentenceAtCeiling = replicate 4000 0x61 @ [0x2E, 0x62]
   \<and> subseq (concat (splitText textSentenceAtCeiling)) textSentenceAtCeiling
   \<and> interleave (splitText textSentenceAtCeiling) [[0x20], []] = textSentenceAtCeiling
   \<and> list_all (list_all isWhiteSpace) [[0x20], []]
   \<and> \<not> isWhiteSpace (hd (hd (tl (splitText textSentenceAtCeiling))))
   \<and> \<not> isWhiteSpace (last (last (splitText textSentenceAtCeiling)))"
proof -
  note split = splitText_textSentenceAtCeiling
  have f: "filter (\<lambda>c. \<not> isWhiteSpace c) textSentenceAtCeiling = replicate 4000 0x61 @ [0x2E, 0x62]"
    by (simp add: textSentenceAtCeiling_def lit_tokens isWhiteSpace_def)
  have w: "interleave (splitText textSentenceAtCeiling) [[0x20], []] = textSentenceAtCeiling"
    unfolding split by (simp add: interleave_def textSentenceAtCeiling_def lit_tokens)
  have g: "list_all (list_all isWhiteSpace) [[0x20], []]"
    by (simp add: isWhiteSpace_def)
  have two: "2 \<le> length (splitText textSentenceAtCeiling)" by (simp add: split)
  have second: "hd (tl (splitText textSentenceAtCeiling)) \<in> set (tl (splitText textSentenceAtCeiling))"
    by (simp add: split)
  note all = C3_chunks_keep_non_whitespace [of textSentenceAtCeiling]
  from all f have a: "filter (\<lambda>c. \<not> isWhiteSpace c) (concat (splitText textSentenceAtCeiling))
     = replicate 4000 0x61 @ [0x2E, 0x62]" by simp
  from all have b: "subseq (concat (splitText textSentenceAtCeiling)) textSentenceAtCeiling" by simp
  from all second have c: "\<not> isWhiteSpace (hd (hd (tl (splitText textSentenceAtCeiling))))" by blast
  from all two have d: "\<not> isWhiteSpace (last (last (splitText textSentenceAtCeiling)))" by blast
  from split a f b w g c d show ?thesis by simp
qed

section \<open>The claims about speech synthesis\<close>

text \<open>
  Claim C4: called with the empty text, \<open>generateSpeechFromText\<close> returns an empty binary
  result at once and issues no request.
\<close>

theorem C4_empty_text_no_calls:
  "generateSpeechFromText w [] voice = (Inr \<lparr>blobBytes = [], blobType = lit ''audio/mp3''\<rparr>, [])"
  by (simp add: generateSpeechFromText_def)

text \<open>An instance, on a network that would answer.\<close>

theorem C4_empty_text_no_calls_witness:
  "generateSpeechFromText (quickWorld (audioResponse [1, 2, 3])) [] (lit ''nova'')
     = (Inr \<lparr>blobBytes = [], blobType = lit ''audio/mp3''\<rparr>, [])"
  by (rule C4_empty_text_no_calls)

text \<open>
  Claim C5: if the call for the \<open>i\<close>-th chunk that is sent fails (those before it having
  succeeded), the whole operation fails with that error, no audio is returned, and the
  requests issued are those of the chunks up to the failing one: none after it.
\<close>

theorem C5_chunk_failure_aborts:
  assumes "i < length (dispatched text)"
    and "\<forall>j < i. \<exists>part. chunkResult w voice j (dispatched text ! j) = Inr part"
    and "chunkResult w voice i (dispatched text ! i) = Inl e"
  shows "generateSpeechFromText w text voice
           = (Inl e, map (speechRequest w voice) (take (Suc i) (dispatched text)))"
proof -
  have "dispatched text \<noteq> []" using assms(1) by auto
  then have "splitText text \<noteq> []" by (auto simp: dispatched_def)
  then have ne: "text \<noteq> []"
    by (auto simp: splitText_def splitLoop_short)
  have "processChunks w voice (splitText text) [] []
          = (Inl e, [] @ map (speechRequest w voice) (take (Suc i) (dispatched text)))"
    unfolding dispatched_def
    using assms by (intro processChunks_failure) (simp_all add: dispatched_def)
  with ne show ?thesis by (simp add: generateSpeechFromText_def)
qed

text \<open>Two instances on a text of two chunks: the first call times out and the second
  chunk is never requested; the first call succeeds and the second fails.\<close>

theorem C5_chunk_failure_aborts_witness:
  "generateSpeechFromText silentWorld textSentenceAtCeiling (lit ''nova'')
     = (Inl timeoutError, [speechRequest silentWorld (lit ''nova'') (replicate 4000 0x61 @ [0x2E])])
   \<and> generateSpeechFromText secondFailsWorld textSentenceAtCeiling (lit ''nova'')
     = (Inl (newError (lit ''OpenAI API error: 500'')),
        [speechRequest secondFailsWorld (lit ''nova'') (replicate 4000 0x61 @ [0x2E]),
         speechRequest secondFailsWorld (lit ''nova'') [0x62]])"
proof -
  have first: "generateSpeechFromText silentWorld textSentenceAtCeiling (lit ''nova'')
     = (Inl timeoutError, map (speechRequest silentWorld (lit ''nova''))
          (take (Suc 0) (dispatched textSentenceAtCeiling)))"
    by (rule C5_chunk_failure_aborts)
       (simp_all add: dispatched_textSentenceAtCeiling chunkResult_silentWorld)
  have second: "generateSpeechFromText secondFailsWorld textSentenceAtCeiling (lit ''nova'')
     = (Inl (newError (lit ''OpenAI API error: 500'')), map (speechRequest secondFailsWorld (lit ''nova''))
          (take (Suc (Suc 0)) (dispatched textSentenceAtCeiling)))"
    by (rule C5_chunk_failure_aborts)
       (simp_all add: dispatched_textSentenceAtCeiling chunkResult_secondFailsWorld)
  from first second show ?thesis
    by (simp add: dispatched_textSentenceAtCeiling)
qed

text \<open>
  Claim C10: the declared type of the blob is not fixed.  For the empty text it is
  \<open>audio/mp3\<close>; for every other text, whenever a blob is returned (no chunk call failed),
  it is \<open>audio/mpeg\<close>; the two differ.
\<close>

theorem C10_mime_type_depends_on_input:
  "(text = [] \<longrightarrow>
      fst (generateSpeechFromText w text voice) = Inr \<lparr>blobBytes = [], blobType = lit ''audio/mp3''\<rparr>)
   \<and> (text \<noteq> [] \<longrightarrow>
      (\<forall>b. fst (generateSpeechFromText w text voice) = Inr b \<longrightarrow> blobType b = lit ''audio/mpeg''))
   \<and> lit ''audio/mp3'' \<noteq> lit ''audio/mpeg''"
proof (intro conjI impI allI)
  assume "text = []"
  then show "fst (generateSpeechFromText w text voice) = Inr \<lparr>blobBytes = [], blobType = lit ''audio/mp3''\<rparr>"
    by (simp add: generateSpeechFromText_def)
next
  fix b
  assume "text \<noteq> []" "fst (generateSpeechFromText w text voice) = Inr b"
  then show "blobType b = lit ''audio/mpeg''"
    by (auto simp: generateSpeechFromText_def split: prod.splits sum.splits)
next
  show "lit ''audio/mp3'' \<noteq> lit ''audio/mpeg''" by (simp add: lit_def)
qed

text \<open>Instances: the empty text, a short text whose call succeeds, and a text of two
  spaces, for which nothing is sent and an empty blob of the other type comes back.\<close>

theorem C10_mime_type_depends_on_input_witness:
  "fst (generateSpeechFromText (quickWorld (audioResponse [1, 2, 3])) [] (lit ''nova''))
     = Inr \<lparr>blobBytes = [], blobType = lit ''audio/mp3''\<rparr>
   \<and> fst (generateSpeechFromText (quickWorld (audioResponse [1, 2, 3])) (lit ''Hi'') (lit ''nova''))
     = Inr \<lparr>blobBytes = [1, 2, 3], blobType = lit ''audio/mpeg''\<rparr>
   \<and> fst (generateSpeechFromText (quickWorld (audioResponse [1, 2, 3])) (lit ''  '') (lit ''nova''))
     = Inr \<lparr>blobBytes = [], blobType = lit ''audio/mpeg''\<rparr>
   \<and> blobType \<lparr>blobBytes = [1, 2, 3], blobType = lit ''audio/mpeg''\<rparr> = lit ''audio/mpeg''"
proof -
  let ?w = "quickWorld (audioResponse [1, 2, 3])"
  have ne: "lit ''Hi'' \<noteq> []" by (simp add: lit_def)
  have r: "fst (generateSpeechFromText ?w (lit ''Hi'') (lit ''nova''))
             = Inr \<lparr>blobBytes = [1, 2, 3], blobType = lit ''audio/mpeg''\<rparr>"
    by (simp add: generateSpeechFromText_Hi)
  from C10_mime_type_depends_on_input [of "[]" ?w "lit ''nova''"]
  have a: "fst (generateSpeechFromText ?w [] (lit ''nova'')) = Inr \<lparr>blobBytes = [], blobType = lit ''audio/mp3''\<rparr>"
    by simp
  from C10_mime_type_depends_on_input [of "lit ''Hi''" ?w "lit ''nova''"] ne r
  have b: "blobType \<lparr>blobBytes = [1, 2, 3], blobType = lit ''audio/mpeg''\<rparr> = lit ''audio/mpeg''"
    by blast
  from a r b show ?thesis by (simp add: generateSpeechFromText_blank)
qed

section \<open>The claims about the request helper and the chat\<close>

text \<open>
  Claim C6, as stated, fails in its last part: a failure reported by the service is not
  always distinguishable from a timeout.  The message of a failure response is passed on
  as it is, so a response with status 500 whose message is the text of the timeout
  failure makes the helper throw the very error it throws when the timer fires first.
\<close>

theorem C6_counterexample:
  "settlesWithFailure 30000
     (network (quickWorld (failureResponse 500 (Some (lit ''Request timed out. Check your connection.'')))) 0
        (buildRequest (quickWorld (failureResponse 500 (Some (lit ''Request timed out. Check your connection.''))))
           (lit ''/audio/speech'') (speechRequestBody (lit ''nova'') (lit ''Hi'')) False))
   \<and> timerFiresFirst 30000
     (network silentWorld 0
        (buildRequest silentWorld (lit ''/audio/speech'') (speechRequestBody (lit ''nova'') (lit ''Hi'')) False))
   \<and> fst (openaiRequestDefault
            (quickWorld (failureResponse 500 (Some (lit ''Request timed out. Check your connection.'')))) []
            (lit ''/audio/speech'') (speechRequestBody (lit ''nova'') (lit ''Hi'')))
      = Inl timeoutError
   \<and> fst (openaiRequestDefault silentWorld []
            (lit ''/audio/speech'') (speechRequestBody (lit ''nova'') (lit ''Hi'')))
      = Inl timeoutError"
proof -
  have "fst (openaiRequestDefault silentWorld []
            (lit ''/audio/speech'') (speechRequestBody (lit ''nova'') (lit ''Hi''))) = Inl timeoutError"
    unfolding openaiRequestDefault_def fst_openaiRequest
    by (rule openaiRequestOutcome_timeout) (simp add: silentWorld_def timerFiresFirst_def)
  then show ?thesis
    unfolding openaiRequestDefault_def fst_openaiRequest
    by (simp add: quickWorld_def silentWorld_def openaiRequestOutcome_samples)
       (simp add: settlesWithFailure_def timerFiresFirst_def failureResponse_def)
qed

text \<open>
  Claim C6, amended: for a wait duration that \<open>setTimeout\<close> keeps (below \<open>2 ^ 31\<close> ms;
  30000 ms by default), if the wait elapses before the fetch settles, or in the same
  millisecond, the call fails with the fixed timeout error, whose message is
  \<open>Request timed out. Check your connection.\<close>  A failure that settles strictly before
  that is passed on as it is: a rejection not named \<open>AbortError\<close> is thrown again
  unchanged; a failure status whose body carries a non-empty message throws an \<open>Error\<close>
  with that very message; a failure status with no message, or an empty one, throws
  \<open>OpenAI API error:\<close> followed by the decimal digits of the status, which is never the
  timeout error.  So every failure that settles in time and does not itself carry the
  text of the timeout failure is a different error.
\<close>

theorem C6_timeout_failure:
  assumes "timeoutMs < 2 ^ 31"
  shows
  "(timerFiresFirst timeoutMs (network w (length calls) (buildRequest w endpoint payload isFormData)) \<longrightarrow>
      fst (openaiRequest w calls endpoint payload isFormData timeoutMs) = Inl timeoutError)
   \<and> (settlesWithFailure timeoutMs (network w (length calls) (buildRequest w endpoint payload isFormData))
        \<and> \<not> carriesTimeoutText (network w (length calls) (buildRequest w endpoint payload isFormData)) \<longrightarrow>
      (\<exists>error. fst (openaiRequest w calls endpoint payload isFormData timeoutMs) = Inl error
                \<and> error \<noteq> timeoutError))
   \<and> (\<forall>t e. network w (length calls) (buildRequest w endpoint payload isFormData) = Rejects t e
          \<and> t < timeoutMs \<and> errName e \<noteq> lit ''AbortError'' \<longrightarrow>
      fst (openaiRequest w calls endpoint payload isFormData timeoutMs) = Inl e)
   \<and> (\<forall>t r m. network w (length calls) (buildRequest w endpoint payload isFormData) = Resolves t r
          \<and> t < timeoutMs \<and> \<not> ok r \<and> errorData r = ErrorMessage (Some m) \<and> m \<noteq> [] \<longrightarrow>
      fst (openaiRequest w calls endpoint payload isFormData timeoutMs) = Inl (newError m))
   \<and> (\<forall>t r m. network w (length calls) (buildRequest w endpoint payload isFormData) = Resolves t r
          \<and> t < timeoutMs \<and> \<not> ok r \<and> errorData r = ErrorMessage m \<and> (m = None \<or> m = Some []) \<longrightarrow>
      fst (openaiRequest w calls endpoint payload isFormData timeoutMs)
        = Inl (newError (lit ''OpenAI API error: '' @ decimal (status r)))
      \<and> digitsValue (decimal (status r)) = status r
      \<and> newError (lit ''OpenAI API error: '' @ decimal (status r)) \<noteq> timeoutError)
   \<and> timeoutError = newError (lit ''Request timed out. Check your connection.'')
   \<and> openaiRequestDefault w calls endpoint payload = openaiRequest w calls endpoint payload False 30000"
proof (intro conjI impI allI)
  assume "timerFiresFirst timeoutMs (network w (length calls) (buildRequest w endpoint payload isFormData))"
  then show "fst (openaiRequest w calls endpoint payload isFormData timeoutMs) = Inl timeoutError"
    unfolding fst_openaiRequest by (rule openaiRequestOutcome_timeout)
next
  assume "settlesWithFailure timeoutMs (network w (length calls) (buildRequest w endpoint payload isFormData))
        \<and> \<not> carriesTimeoutText (network w (length calls) (buildRequest w endpoint payload isFormData))"
  then show "\<exists>error. fst (openaiRequest w calls endpoint payload isFormData timeoutMs) = Inl error
                \<and> error \<noteq> timeoutError"
    unfolding fst_openaiRequest by (simp add: openaiRequestOutcome_failure)
next
  fix t e
  assume "network w (length calls) (buildRequest w endpoint payload isFormData) = Rejects t e
          \<and> t < timeoutMs \<and> errName e \<noteq> lit ''AbortError''"
  then show "fst (openaiRequest w calls endpoint payload isFormData timeoutMs) = Inl e"
    unfolding fst_openaiRequest by (simp add: openaiRequestOutcome_rejected)
next
  fix t r m
  assume "network w (length calls) (buildRequest w endpoint payload isFormData) = Resolves t r
          \<and> t < timeoutMs \<and> \<not> ok r \<and> errorData r = ErrorMessage (Some m) \<and> m \<noteq> []"
  then show "fst (openaiRequest w calls endpoint payload isFormData timeoutMs) = Inl (newError m)"
    unfolding fst_openaiRequest by (simp add: openaiRequestOutcome_service_message)
next
  fix t r m
  assume a: "network w (length calls) (buildRequest w endpoint payload isFormData) = Resolves t r
          \<and> t < timeoutMs \<and> \<not> ok r \<and> errorData r = ErrorMessage m \<and> (m = None \<or> m = Some [])"
  then have "openaiRequestOutcome (Resolves t r) timeoutMs
               = Inl (newError (lit ''OpenAI API error: '' @ decimal (status r)))"
    by (intro openaiRequestOutcome_numeric_status [of t timeoutMs r m]) simp_all
  with a show "fst (openaiRequest w calls endpoint payload isFormData timeoutMs)
        = Inl (newError (lit ''OpenAI API error: '' @ decimal (status r)))"
    unfolding fst_openaiRequest by simp
next
  fix t r m
  show "digitsValue (decimal (status r)) = status r" by (rule digitsValue_decimal)
next
  fix t r m
  show "newError (lit ''OpenAI API error: '' @ decimal (status r)) \<noteq> timeoutError"
    by (rule numeric_status_message)
next
  show "timeoutError = newError (lit ''Request timed out. Check your connection.'')"
    by (simp add: timeoutError_def)
next
  show "openaiRequestDefault w calls endpoint payload = openaiRequest w calls endpoint payload False 30000"
    by (simp add: openaiRequestDefault_def)
qed

text \<open>Instances with the default wait: a network that never answers; an answer due in the
  millisecond of the timeout; status 500 with no message; status 429 with a message of
  the service; a network that is down.\<close>

theorem C6_timeout_failure_witness:
  "timerFiresFirst 30000
     (network silentWorld 0
        (buildRequest silentWorld (lit ''/audio/speech'') (speechRequestBody (lit ''nova'') (lit ''Hi'')) False))
   \<and> fst (openaiRequestDefault silentWorld []
            (lit ''/audio/speech'') (speechRequestBody (lit ''nova'') (lit ''Hi''))) = Inl timeoutError
   \<and> timerFiresFirst 30000
     (network (tieWorld (audioResponse [1, 2, 3])) 0
        (buildRequest (tieWorld (audioResponse [1, 2, 3])) (lit ''/audio/speech'')
           (speechRequestBody (lit ''nova'') (lit ''Hi'')) False))
   \<and> fst (openaiRequestDefault (tieWorld (audioResponse [1, 2, 3])) []
            (lit ''/audio/speech'') (speechRequestBody (lit ''nova'') (lit ''Hi''))) = Inl timeoutError
   \<and> settlesWithFailure 30000
     (network (quickWorld (failureResponse 500 None)) 0
        (buildRequest (quickWorld (failureResponse 500 None))
           (lit ''/audio/speech'') (speechRequestBody (lit ''nova'') (lit ''Hi'')) False))
   \<and> fst (openaiRequestDefault (quickWorld (failureResponse 500 None)) []
            (lit ''/audio/speech'') (speechRequestBody (lit ''nova'') (lit ''Hi'')))
      = Inl (newError (lit ''OpenAI API error: 500''))
   \<and> newError (lit ''OpenAI API error: 500'') \<noteq> timeoutError
   \<and> fst (openaiRequestDefault (quickWorld (failureResponse 429 (Some (lit ''Rate limit reached'')))) []
            (lit ''/audio/speech'') (speechRequestBody (lit ''nova'') (lit ''Hi'')))
      = Inl (newError (lit ''Rate limit reached''))
   \<and> fst (openaiRequestDefault offlineWorld []
            (lit ''/audio/speech'') (speechRequestBody (lit ''nova'') (lit ''Hi'')))
      = Inl failedToFetch"
proof -
  let ?ep = "lit ''/audio/speech''"
  let ?pl = "speechRequestBody (lit ''nova'') (lit ''Hi'')"
  let ?q = "quickWorld (failureResponse 500 None)"
  let ?s = "quickWorld (failureResponse 429 (Some (lit ''Rate limit reached'')))"
  let ?tie = "tieWorld (audioResponse [1, 2, 3])"
  have small: "(30000::nat) < 2 ^ 31" by simp
  have t: "timerFiresFirst 30000 (network silentWorld (length ([] :: request list)) (buildRequest silentWorld ?ep ?pl False))"
    by (simp add: silentWorld_def timerFiresFirst_def)
  have tt: "timerFiresFirst 30000 (network ?tie (length ([] :: request list)) (buildRequest ?tie ?ep ?pl False))"
    by (simp add: tieWorld_def timerFiresFirst_def)
  have s: "settlesWithFailure 30000 (network ?q (length ([] :: request list)) (buildRequest ?q ?ep ?pl False))"
    by (simp add: quickWorld_def settlesWithFailure_def timerFiresFirst_def failureResponse_def)
  note silent = C6_timeout_failure [OF small, of silentWorld "[]" ?ep ?pl False, THEN conjunct1, rule_format]
  note tie = C6_timeout_failure [OF small, of ?tie "[]" ?ep ?pl False, THEN conjunct1, rule_format]
  note numeric = C6_timeout_failure [OF small, of ?q "[]" ?ep ?pl False,
      THEN conjunct2, THEN conjunct2, THEN conjunct2, THEN conjunct2, THEN conjunct1, rule_format,
      of 120 "failureResponse 500 None" None]
  note service = C6_timeout_failure [OF small, of ?s "[]" ?ep ?pl False,
      THEN conjunct2, THEN conjunct2, THEN conjunct2, THEN conjunct1, rule_format,
      of 120 "failureResponse 429 (Some (lit ''Rate limit reached''))" "lit ''Rate limit reached''"]
  note rejected = C6_timeout_failure [OF small, of offlineWorld "[]" ?ep ?pl False,
      THEN conjunct2, THEN conjunct2, THEN conjunct1, rule_format, of 15 failedToFetch]
  have a: "fst (openaiRequest silentWorld [] ?ep ?pl False 30000) = Inl timeoutError"
    by (rule silent) (rule t)
  have b: "fst (openaiRequest ?tie [] ?ep ?pl False 30000) = Inl timeoutError"
    by (rule tie) (rule tt)
  have c: "fst (openaiRequest ?q [] ?ep ?pl False 30000)
             = Inl (newError (lit ''OpenAI API error: '' @ decimal (status (failureResponse 500 None))))
           \<and> digitsValue (decimal (status (failureResponse 500 None))) = status (failureResponse 500 None)
           \<and> newError (lit ''OpenAI API error: '' @ decimal (status (failureResponse 500 None))) \<noteq> timeoutError"
    by (rule numeric) (simp add: quickWorld_def failureResponse_def)
  have d: "fst (openaiRequest ?s [] ?ep ?pl False 30000) = Inl (newError (lit ''Rate limit reached''))"
    by (rule service) (simp add: quickWorld_def failureResponse_def lit_def)
  have e: "fst (openaiRequest offlineWorld [] ?ep ?pl False 30000) = Inl failedToFetch"
    by (rule rejected) (simp add: offlineWorld_def failedToFetch_def lit_def)
  have st: "lit ''OpenAI API error: '' @ decimal (status (failureResponse 500 None)) = lit ''OpenAI API error: 500''"
    by (simp add: failureResponse_def decimal_500 lit_def)
  from t tt s a b c d e show ?thesis
    by (simp add: openaiRequestDefault_def st)
qed

text \<open>
  Claim C9: \<open>sendMessageToChat\<close> appends the user message before it issues the call (the
  one request issued carries it after the earlier messages).  When the call and the
  decoding of its body succeed, the assistant reply is appended as well, user then
  assistant, and returned.  When they fail, the user message stays in the session and a
  fixed placeholder string is returned; nothing is thrown.
\<close>

theorem C9_chat_session_history:
  "snd (snd (sendMessageToChat w chat message)) = [chatRequest w chat message]
   \<and> (\<forall>data. chatResult w chat message = Inr data \<longrightarrow>
        sendMessageToChat w chat message
          = (replyOf data,
             chat\<lparr>messages := messages chat @ [\<lparr>role = User, content = message\<rparr>,
                                                 \<lparr>role = Assistant, content = replyOf data\<rparr>]\<rparr>,
             [chatRequest w chat message]))
   \<and> (\<forall>error. chatResult w chat message = Inl error \<longrightarrow>
        sendMessageToChat w chat message
          = (lit ''An error occurred while communicating with the assistant.'',
             chat\<lparr>messages := messages chat @ [\<lparr>role = User, content = message\<rparr>]\<rparr>,
             [chatRequest w chat message]))"
  by (auto simp: sendMessageToChat_def openaiRequestDefault_def openaiRequest_def chatResult_def
      chatRequest_def chatRequestBody_def andThen_def replyOf_def Let_def
      split: sum.splits option.splits)

text \<open>Instances: a network that answers, and one that never does.\<close>

theorem C9_chat_session_history_witness:
  "sendMessageToChat (quickWorld (chatResponse (lit ''Fine.''))) sampleChat (lit ''How are you?'')
     = (lit ''Fine.'',
        \<lparr>messages = [\<lparr>role = User, content = lit ''Hi''\<rparr>, \<lparr>role = Assistant, content = lit ''Hello''\<rparr>,
                     \<lparr>role = User, content = lit ''How are you?''\<rparr>,
                     \<lparr>role = Assistant, content = lit ''Fine.''\<rparr>],
         systemPrompt = lit ''You are a helpful assistant.''\<rparr>,
        [chatRequest (quickWorld (chatResponse (lit ''Fine.''))) sampleChat (lit ''How are you?'')])
   \<and> sendMessageToChat silentWorld sampleChat (lit ''How are you?'')
     = (lit ''An error occurred while communicating with the assistant.'',
        \<lparr>messages = [\<lparr>role = User, content = lit ''Hi''\<rparr>, \<lparr>role = Assistant, content = lit ''Hello''\<rparr>,
                     \<lparr>role = User, content = lit ''How are you?''\<rparr>],
         systemPrompt = lit ''You are a helpful assistant.''\<rparr>,
        [chatRequest silentWorld sampleChat (lit ''How are you?'')])"
proof -
  have reply: "replyOf (Some (lit ''Fine.'')) = lit ''Fine.''"
    by (simp add: replyOf_def lit_def)
  from C9_chat_session_history [of "quickWorld (chatResponse (lit ''Fine.''))" sampleChat "lit ''How are you?''"]
  have ok: "sendMessageToChat (quickWorld (chatResponse (lit ''Fine.''))) sampleChat (lit ''How are you?'')
     = (lit ''Fine.'',
        sampleChat\<lparr>messages := messages sampleChat @ [\<lparr>role = User, content = lit ''How are you?''\<rparr>,
                                                 \<lparr>role = Assistant, content = lit ''Fine.''\<rparr>]\<rparr>,
        [chatRequest (quickWorld (chatResponse (lit ''Fine.''))) sampleChat (lit ''How are you?'')])"
    by (simp add: chatResult_quickWorld reply)
  from C9_chat_session_history [of silentWorld sampleChat "lit ''How are you?''"]
  have failed: "sendMessageToChat silentWorld sampleChat (lit ''How are you?'')
     = (lit ''An error occurred while communicating with the assistant.'',
        sampleChat\<lparr>messages := messages sampleChat @ [\<lparr>role = User, content = lit ''How are you?''\<rparr>]\<rparr>,
        [chatRequest silentWorld sampleChat (lit ''How are you?'')])"
    by (simp add: chatResult_silentWorld)
  from ok failed show ?thesis by (simp add: sampleChat_def)
qed

section \<open>The claims about the WAV container\<close>

text \<open>
  Claim C7, as stated for every sample count, fails where the sizes do not fit the 32-bit
  fields of the header: \<open>setUint32\<close> wraps them modulo \<open>2 ^ 32\<close>.  For \<open>2 ^ 31\<close> samples
  the data size is \<open>2 ^ 32\<close> bytes, and the header declares a data size of 0 and a total
  size of 36.
\<close>

theorem C7_counterexample:
  "float32ArrayToWav (replicate 2147483648 (Num 0)) 16000
     = Inr \<lparr>blobBytes = wavHeader 2147483648 16000 @ concat (map pcmBytes (replicate 2147483648 (Num 0))),
            blobType = lit ''audio/wav''\<rparr>
   \<and> 2 * length (replicate 2147483648 (Num 0)) = 4294967296
   \<and> getUint32 (wavHeader 2147483648 16000 @ concat (map pcmBytes (replicate 2147483648 (Num 0)))) 40 True
       = Inr 0
   \<and> getUint32 (wavHeader 2147483648 16000 @ concat (map pcmBytes (replicate 2147483648 (Num 0)))) 4 True
       = Inr 36"
proof -
  have a: "float32ArrayToWav (replicate 2147483648 (Num 0)) 16000
     = Inr \<lparr>blobBytes = wavHeader 2147483648 16000 @ concat (map pcmBytes (replicate 2147483648 (Num 0))),
            blobType = lit ''audio/wav''\<rparr>"
    using float32ArrayToWav_closed [of "replicate 2147483648 (Num 0)" 16000] by simp
  have b: "getUint32 (wavHeader 2147483648 16000 @ concat (map pcmBytes (replicate 2147483648 (Num 0)))) 40 True
       = Inr 0"
    by (rule getUint32_header) (simp_all add: wavHeader_fields)
  have c: "getUint32 (wavHeader 2147483648 16000 @ concat (map pcmBytes (replicate 2147483648 (Num 0)))) 4 True
       = Inr 36"
    by (rule getUint32_header) (simp_all add: wavHeader_fields)
  from a b c show ?thesis by simp
qed

text \<open>
  Claim C7, amended: for every sample count \<open>N\<close> with \<open>36 + 2 N < 2 ^ 32\<close>, the container
  assembled from \<open>N\<close> samples at sample rate 16000 is returned (no write is out of range),
  has \<open>44 + 2 N\<close> bytes, and its header declares, little-endian, a data size of \<open>2 N\<close> at
  offset 40, a total size of \<open>36 + 2 N\<close> at offset 4, the PCM format 1 at offset 20, one
  channel at offset 22, 16 bits per sample at offset 34 and the sample rate at offset 24.
\<close>

theorem C7_wav_header_sizes:
  assumes "36 + 2 * length audioData < 2 ^ 32"
  shows "\<exists>wav. float32ArrayToWav audioData 16000 = Inr wav
           \<and> blobType wav = lit ''audio/wav''
           \<and> length (blobBytes wav) = 44 + 2 * length audioData
           \<and> getUint32 (blobBytes wav) 40 True = Inr (2 * length audioData)
           \<and> getUint32 (blobBytes wav) 4 True = Inr (36 + 2 * length audioData)
           \<and> getUint16 (blobBytes wav) 20 True = Inr 1
           \<and> getUint16 (blobBytes wav) 22 True = Inr 1
           \<and> getUint16 (blobBytes wav) 34 True = Inr 16
           \<and> getUint32 (blobBytes wav) 24 True = Inr 16000"
proof -
  let ?n = "length audioData"
  let ?pcm = "concat (map pcmBytes audioData)"
  let ?bytes = "wavHeader ?n 16000 @ ?pcm"
  have small: "?n * 2 < 2 ^ 32" "36 + ?n * 2 < 2 ^ 32" using assms by simp_all
  have "length ?pcm = 2 * ?n"
    by (induction audioData) simp_all
  then have len: "length ?bytes = 44 + 2 * ?n" by simp
  have dataSize: "getUint32 ?bytes 40 True = Inr (2 * ?n)"
    using getUint32_header [of 40 ?n 16000 "?n * 2" ?pcm] small
    by (simp add: wavHeader_fields mult.commute)
  have riffSize: "getUint32 ?bytes 4 True = Inr (36 + 2 * ?n)"
    using getUint32_header [of 4 ?n 16000 "36 + ?n * 2" ?pcm] small
    by (simp add: wavHeader_fields mult.commute)
  have fmt: "getUint16 ?bytes 20 True = Inr 1"
    by (rule getUint16_header) (simp_all add: wavHeader_fields)
  have channels: "getUint16 ?bytes 22 True = Inr 1"
    by (rule getUint16_header) (simp_all add: wavHeader_fields)
  have bits: "getUint16 ?bytes 34 True = Inr 16"
    by (rule getUint16_header) (simp_all add: wavHeader_fields)
  have rate: "getUint32 ?bytes 24 True = Inr 16000"
    by (rule getUint32_header) (simp_all add: wavHeader_fields)
  show ?thesis
    unfolding float32ArrayToWav_closed
    using len dataSize riffSize fmt channels bits rate by simp
qed

text \<open>An instance: three samples, all 50 bytes of the container.\<close>

theorem C7_wav_header_sizes_witness:
  "float32ArrayToWav [Num (1 / 2), Num (- 1), NaN] 16000
     = Inr \<lparr>blobBytes = [0x52, 0x49, 0x46, 0x46, 42, 0, 0, 0, 0x57, 0x41, 0x56, 0x45,
                         0x66, 0x6D, 0x74, 0x20, 16, 0, 0, 0, 1, 0, 1, 0,
                         0x80, 0x3E, 0, 0, 0x00, 0x7D, 0, 0, 2, 0, 16, 0,
                         0x64, 0x61, 0x74, 0x61, 6, 0, 0, 0,
                         0xFF, 0x3F, 0x00, 0x80, 0, 0],
            blobType = lit ''audio/wav''\<rparr>
   \<and> getUint32 [0x52, 0x49, 0x46, 0x46, 42, 0, 0, 0, 0x57, 0x41, 0x56, 0x45,
                         0x66, 0x6D, 0x74, 0x20, 16, 0, 0, 0, 1, 0, 1, 0,
                         0x80, 0x3E, 0, 0, 0x00, 0x7D, 0, 0, 2, 0, 16, 0,
                         0x64, 0x61, 0x74, 0x61, 6, 0, 0, 0,
                         0xFF, 0x3F, 0x00, 0x80, 0, 0] 40 True = Inr 6
   \<and> getUint32 [0x52, 0x49, 0x46, 0x46, 42, 0, 0, 0, 0x57, 0x41, 0x56, 0x45,
                         0x66, 0x6D, 0x74, 0x20, 16, 0, 0, 0, 1, 0, 1, 0,
                         0x80, 0x3E, 0, 0, 0x00, 0x7D, 0, 0, 2, 0, 16, 0,
                         0x64, 0x61, 0x74, 0x61, 6, 0, 0, 0,
                         0xFF, 0x3F, 0x00, 0x80, 0, 0] 4 True = Inr 42"
proof -
  have small: "36 + 2 * length [Num (1 / 2), Num (- 1), NaN] < (2::nat) ^ 32" by simp
  have wav: "float32ArrayToWav [Num (1 / 2), Num (- 1), NaN] 16000
     = Inr \<lparr>blobBytes = [0x52, 0x49, 0x46, 0x46, 42, 0, 0, 0, 0x57, 0x41, 0x56, 0x45,
                         0x66, 0x6D, 0x74, 0x20, 16, 0, 0, 0, 1, 0, 1, 0,
                         0x80, 0x3E, 0, 0, 0x00, 0x7D, 0, 0, 2, 0, 16, 0,
                         0x64, 0x61, 0x74, 0x61, 6, 0, 0, 0,
                         0xFF, 0x3F, 0x00, 0x80, 0, 0],
            blobType = lit ''audio/wav''\<rparr>"
    by (simp add: float32ArrayToWav_closed wavHeader_def uintBytes_numerals pcmBytes_samples)
  from C7_wav_header_sizes [OF small] wav show ?thesis by simp
qed

text \<open>
  Claim C8: for every sample, the two bytes written for it (at offset \<open>44 + 2 i\<close>), read
  back little-endian as a signed 16-bit integer, are the sample clamped to \<open>[-1, 1]\<close> and
  scaled to the signed 16-bit integers: a negative value by \<open>0x8000\<close>, any other by
  \<open>0x7FFF\<close>, the fraction dropped; the scaled value lies in \<open>[-32768, 32767]\<close>, so the
  conversion to 16 bits does not wrap.  An infinite sample is clamped like any other.
  A NaN sample has no clamped value; 0 is written for it.
\<close>

theorem C8_sample_encoding:
  assumes "i < length audioData"
  shows "\<exists>wav. float32ArrayToWav audioData sampleRate = Inr wav
           \<and> (\<forall>c. clampToUnit (audioData ! i) = Some c \<longrightarrow>
                 - 1 \<le> c \<and> c \<le> 1
                 \<and> getInt16 (blobBytes wav) (44 + 2 * i) True = Inr (scaleToInt16 c)
                 \<and> - 32768 \<le> scaleToInt16 c \<and> scaleToInt16 c \<le> 32767)
           \<and> (clampToUnit (audioData ! i) = None \<longrightarrow>
                 getInt16 (blobBytes wav) (44 + 2 * i) True = Inr 0)"
proof -
  let ?bytes = "wavHeader (length audioData) sampleRate @ concat (map pcmBytes audioData)"
  let ?v = "let sample = mathMax (Num (- 1)) (mathMin (Num 1) (audioData ! i))
            in if jsLess sample (Num 0) then jsTimes sample 32768 else jsTimes sample 32767"
  have g: "getInt16 ?bytes (44 + 2 * i) True = Inr (toInt16 ?v)"
    by (rule getInt16_sample [OF assms])
  have some: "- 1 \<le> c \<and> c \<le> 1 \<and> getInt16 ?bytes (44 + 2 * i) True = Inr (scaleToInt16 c)
                \<and> - 32768 \<le> scaleToInt16 c \<and> scaleToInt16 c \<le> 32767"
    if "clampToUnit (audioData ! i) = Some c" for c
  proof -
    from intSample_clamped [OF that] have c: "- 1 \<le> c" "c \<le> 1" and t: "toInt16 ?v = scaleToInt16 c"
      by simp_all
    from toInt16_range [of ?v] t have "- 32768 \<le> scaleToInt16 c \<and> scaleToInt16 c \<le> 32767"
      by simp
    with c g t show ?thesis by simp
  qed
  have none: "getInt16 ?bytes (44 + 2 * i) True = Inr 0" if "clampToUnit (audioData ! i) = None"
  proof -
    from that have "audioData ! i = NaN" by (cases "audioData ! i") simp_all
    with g show ?thesis by simp
  qed
  show ?thesis
    unfolding float32ArrayToWav_closed
    using some none by simp
qed

text \<open>An instance: the samples \<open>1/2\<close>, \<open>-1\<close>, NaN and \<open>3\<close>.\<close>

theorem C8_sample_encoding_witness:
  "float32ArrayToWav fourSamples 16000 = Inr \<lparr>blobBytes = fourSamplesWav, blobType = lit ''audio/wav''\<rparr>
   \<and> clampToUnit (fourSamples ! 0) = Some (1 / 2) \<and> scaleToInt16 (1 / 2) = 16383
   \<and> getInt16 fourSamplesWav 44 True = Inr 16383
   \<and> clampToUnit (fourSamples ! 1) = Some (- 1) \<and> getInt16 fourSamplesWav 46 True = Inr (- 32768)
   \<and> clampToUnit (fourSamples ! 2) = None \<and> getInt16 fourSamplesWav 48 True = Inr 0
   \<and> clampToUnit (fourSamples ! 3) = Some 1 \<and> getInt16 fourSamplesWav 50 True = Inr 32767"
proof -
  note wav = float32ArrayToWav_fourSamples
  have c: "clampToUnit (fourSamples ! 0) = Some (1 / 2)" "clampToUnit (fourSamples ! 1) = Some (- 1)"
    "clampToUnit (fourSamples ! 2) = None" "clampToUnit (fourSamples ! 3) = Some 1"
    by (simp_all add: fourSamples_def)
  have len: "0 < length fourSamples" "1 < length fourSamples" "2 < length fourSamples"
    "3 < length fourSamples" by (simp_all add: fourSamples_def)
  from C8_sample_encoding [OF len(1), of 16000] wav c(1)
  have s0: "getInt16 fourSamplesWav 44 True = Inr (scaleToInt16 (1 / 2))" by auto
  from C8_sample_encoding [OF len(2), of 16000] wav c(2)
  have s1: "getInt16 fourSamplesWav 46 True = Inr (scaleToInt16 (- 1))" by auto
  from C8_sample_encoding [OF len(3), of 16000] wav c(3)
  have s2: "getInt16 fourSamplesWav 48 True = Inr 0" by auto
  from C8_sample_encoding [OF len(4), of 16000] wav c(4)
  have s3: "getInt16 fourSamplesWav 50 True = Inr (scaleToInt16 1)" by auto
  from wav c s0 s1 s2 s3 show ?thesis by (simp add: scaleToInt16_samples)
qed

end
